theory Spec2Isabelle
  imports Complex_Main "HOL-Library.Sublist"
begin

section \<open>Data model (core/models.py)\<close>

text \<open>
  A frame record. The pixel payload is kept abstract (type \<open>'f\<close>); the wall-clock
  timestamp is a number read from the environment.
\<close>

record 'f FrameData =
  frame :: 'f
  timestamp :: nat
  frame_number :: int
  source_info :: "string option"

datatype error = ValueError | ZeroDivisionError | FileExistsError | CvError | AlgorithmError

section \<open>FrameRingBuffer (core/ring_buffer.py)\<close>

text \<open>
  Python's \<open>collections.deque(maxlen=n)\<close>: the constructor raises ValueError for a
  negative bound; \<open>append\<close> adds on the right and, when the bound is exceeded,
  discards one element on the left. With bound 0 every appended element is discarded
  at once.
\<close>

definition deque_append :: "int \<Rightarrow> 'a list \<Rightarrow> 'a \<Rightarrow> 'a list" where
  "deque_append maxlen xs x =
     (let ys = xs @ [x] in if int (length ys) > maxlen then tl ys else ys)"

record 'f FrameRingBuffer =
  capacity :: int
  buffer :: "'f FrameData list"

definition FrameRingBuffer_init :: "int \<Rightarrow> error + 'f FrameRingBuffer" where
  "FrameRingBuffer_init c =
     (if c < 0 then Inl ValueError else Inr \<lparr>capacity = c, buffer = []\<rparr>)"

definition add :: "'f FrameRingBuffer \<Rightarrow> 'f FrameData \<Rightarrow> 'f FrameRingBuffer" where
  "add b frame_data = b\<lparr>buffer := deque_append (capacity b) (buffer b) frame_data\<rparr>"

definition get :: "'f FrameRingBuffer \<Rightarrow> int \<Rightarrow> 'f FrameData option" where
  "get b index =
     (if 0 \<le> index \<and> index < int (length (buffer b))
      then Some (buffer b ! nat index) else None)"

definition get_latest :: "'f FrameRingBuffer \<Rightarrow> 'f FrameData option" where
  "get_latest b = (if length (buffer b) > 0 then Some (last (buffer b)) else None)"

definition get_by_frame_number :: "'f FrameRingBuffer \<Rightarrow> int \<Rightarrow> 'f FrameData option" where
  "get_by_frame_number b n = find (\<lambda>fd. frame_number fd = n) (rev (buffer b))"

definition get_size :: "'f FrameRingBuffer \<Rightarrow> int" where
  "get_size b = int (length (buffer b))"

definition get_capacity :: "'f FrameRingBuffer \<Rightarrow> int" where
  "get_capacity b = capacity b"

text \<open>
  \<open>get_fill_percentage\<close> is \<open>(size / capacity) * 100.0\<close>: Python's true division raises
  ZeroDivisionError for a zero divisor. The quotient is modelled exactly (a rational
  number); the rounding of the machine float is not part of the model.
\<close>

definition get_fill_percentage :: "'f FrameRingBuffer \<Rightarrow> error + rat" where
  "get_fill_percentage b =
     (if capacity b = 0 then Inl ZeroDivisionError
      else Inr ((of_int (get_size b) / of_int (capacity b)) * 100))"

definition clear :: "'f FrameRingBuffer \<Rightarrow> 'f FrameRingBuffer" where
  "clear b = b\<lparr>buffer := []\<rparr>"

definition get_all_frame_numbers :: "'f FrameRingBuffer \<Rightarrow> int list" where
  "get_all_frame_numbers b = map frame_number (buffer b)"

definition get_frame_range :: "'f FrameRingBuffer \<Rightarrow> int option \<times> int option" where
  "get_frame_range b =
     (if length (buffer b) = 0 then (None, None)
      else (Some (frame_number (buffer b ! 0)), Some (frame_number (last (buffer b)))))"

text \<open>A sequence of insertions, oldest first.\<close>

definition add_all :: "'f FrameRingBuffer \<Rightarrow> 'f FrameData list \<Rightarrow> 'f FrameRingBuffer" where
  "add_all b fds = foldl add b fds"

section \<open>PlaybackController (core/playback_controller.py)\<close>

datatype PlaybackState = STOPPED | PLAYING | PAUSED

text \<open>
  The controller's fields. \<open>lock\<close> is the \<open>threading.Lock\<close> (True while held; the
  lock is not reentrant), \<open>play_thread\<close> is \<open>None\<close> when no drive thread was created
  and otherwise tells whether it is alive. The caller-supplied frame callback is
  opaque: the model keeps whether one is installed and the arguments it has been
  invoked with, oldest first.
\<close>

record PlaybackController =
  fps :: rat
  state :: PlaybackState
  current_frame :: int
  loop_enabled :: bool
  total_frames :: "int option"
  lock :: bool
  play_thread :: "bool option"
  stop_event :: bool
  frame_callback :: bool
  callback_calls :: "int list"

definition PlaybackController_init :: "rat \<Rightarrow> PlaybackController" where
  "PlaybackController_init f =
     \<lparr>fps = f, state = STOPPED, current_frame = 0, loop_enabled = False,
      total_frames = None, lock = False, play_thread = None, stop_event = False,
      frame_callback = False, callback_calls = []\<rparr>"

text \<open>
  \<open>with self._lock: body\<close>. A method call is a value of type
  \<open>PlaybackController option\<close>: \<open>None\<close> means that the calling thread blocks on the
  lock and the call does not return. Acquiring a lock that is held blocks; leaving
  the block (also by \<open>return\<close>) releases it.
\<close>

definition with_lock ::
  "PlaybackController \<Rightarrow> (PlaybackController \<Rightarrow> PlaybackController option)
     \<Rightarrow> PlaybackController option" where
  "with_lock c body =
     (if lock c then None
      else (case body (c\<lparr>lock := True\<rparr>) of
              None \<Rightarrow> None
            | Some c' \<Rightarrow> Some (c'\<lparr>lock := False\<rparr>)))"

definition set_frame_callback :: "PlaybackController \<Rightarrow> PlaybackController" where
  "set_frame_callback c = c\<lparr>frame_callback := True\<rparr>"

definition fire_callback :: "PlaybackController \<Rightarrow> PlaybackController" where
  "fire_callback c =
     (if frame_callback c then c\<lparr>callback_calls := callback_calls c @ [current_frame c]\<rparr>
      else c)"

definition play :: "PlaybackController \<Rightarrow> PlaybackController option" where
  "play c = with_lock c (\<lambda>c.
     if state c = PLAYING then Some c
     else (let c1 = c\<lparr>state := PLAYING, stop_event := False\<rparr>
           in if play_thread c1 = None \<or> play_thread c1 = Some False
              then Some (c1\<lparr>play_thread := Some True\<rparr>)
              else Some c1))"

definition pause :: "PlaybackController \<Rightarrow> PlaybackController option" where
  "pause c = with_lock c (\<lambda>c.
     if state c = PLAYING then Some (c\<lparr>state := PAUSED, stop_event := True\<rparr>)
     else Some c)"

definition stop_playback :: "PlaybackController \<Rightarrow> PlaybackController option" where
  "stop_playback c = with_lock c (\<lambda>c.
     Some (c\<lparr>state := STOPPED, stop_event := True, current_frame := 0\<rparr>))"

definition toggle_play_pause :: "PlaybackController \<Rightarrow> PlaybackController option" where
  "toggle_play_pause c = with_lock c (\<lambda>c.
     if state c = PLAYING then pause c else play c)"

definition step_forward :: "PlaybackController \<Rightarrow> PlaybackController option" where
  "step_forward c = with_lock c (\<lambda>c.
     if (case total_frames c of None \<Rightarrow> True | Some t \<Rightarrow> current_frame c < t - 1)
     then Some (fire_callback (c\<lparr>current_frame := current_frame c + 1\<rparr>))
     else Some c)"

definition step_backward :: "PlaybackController \<Rightarrow> PlaybackController option" where
  "step_backward c = with_lock c (\<lambda>c.
     if current_frame c > 0
     then Some (fire_callback (c\<lparr>current_frame := current_frame c - 1\<rparr>))
     else Some c)"

definition seek :: "PlaybackController \<Rightarrow> int \<Rightarrow> PlaybackController option" where
  "seek c n = with_lock c (\<lambda>c.
     let n' = (case total_frames c of
                 Some t \<Rightarrow> max 0 (min n (t - 1))
               | None \<Rightarrow> max 0 n)
     in Some (fire_callback (c\<lparr>current_frame := n'\<rparr>)))"

definition set_total_frames :: "PlaybackController \<Rightarrow> int option \<Rightarrow> PlaybackController option" where
  "set_total_frames c tot = with_lock c (\<lambda>c. Some (c\<lparr>total_frames := tot\<rparr>))"

text \<open>
  The step the claim describes: the current frame moved by \<open>d\<close> and clamped to
  \<open>[0, total - 1]\<close> when the total is known, at 0 from below otherwise.
\<close>

definition clamp_frame :: "int option \<Rightarrow> int \<Rightarrow> int" where
  "clamp_frame tot n =
     (case tot of Some t \<Rightarrow> max 0 (min n (t - 1)) | None \<Rightarrow> max 0 n)"

section \<open>RecordingService (core/recording_service.py)\<close>

text \<open>
  A path is the list of its components. The file system holds the directories that
  exist and the image files written. \<open>Path.mkdir(parents=True, exist_ok=True)\<close>
  creates the directory and every missing ancestor, accepts a directory that is
  already there, and raises when a component of the path is an existing file.
\<close>

type_synonym path = "string list"

record 'f FileSystem =
  dirs :: "path set"
  files :: "path \<rightharpoonup> 'f"

definition mkdir_parents_exist_ok :: "path \<Rightarrow> 'f FileSystem \<Rightarrow> error + 'f FileSystem" where
  "mkdir_parents_exist_ok p d =
     (if list_ex (\<lambda>q. files d q \<noteq> None) (tl (prefixes p)) then Inl FileExistsError
      else Inr (d\<lparr>dirs := dirs d \<union> set (tl (prefixes p))\<rparr>))"

text \<open>
  \<open>cv2.imwrite\<close> reports success as a boolean; whether the write succeeds is decided
  by the environment (\<open>ok\<close>). A failed write leaves no file.
\<close>

definition imwrite :: "path \<Rightarrow> 'f \<Rightarrow> bool \<Rightarrow> 'f FileSystem \<Rightarrow> bool \<times> 'f FileSystem" where
  "imwrite p img ok d = (if ok then (True, d\<lparr>files := (files d)(p \<mapsto> img)\<rparr>) else (False, d))"

text \<open>\<open>str(path)\<close>, with \<open>str(None) = 'None'\<close>.\<close>

fun path_str :: "path \<Rightarrow> string" where
  "path_str [] = ''.''"
| "path_str [c] = c"
| "path_str (c # cs) = c @ ''/'' @ path_str cs"

definition str_opt_path :: "path option \<Rightarrow> string" where
  "str_opt_path p = (case p of None \<Rightarrow> ''None'' | Some q \<Rightarrow> path_str q)"

text \<open>The format specification \<open>:06d\<close>: decimal digits, zero-padded to width 6 (sign included).\<close>

definition digit_char :: "nat \<Rightarrow> char" where
  "digit_char d = ''0123456789'' ! d"

fun dec :: "nat \<Rightarrow> string" where
  "dec n = (if n < 10 then [digit_char n] else dec (n div 10) @ [digit_char (n mod 10)])"

declare dec.simps [simp del]

definition zfill :: "nat \<Rightarrow> string \<Rightarrow> string" where
  "zfill w s = replicate (w - length s) (CHR ''0'') @ s"

definition format_06d :: "int \<Rightarrow> string" where
  "format_06d n =
     (if n < 0 then ''-'' @ zfill 5 (dec (nat (- n))) else zfill 6 (dec (nat n)))"

text \<open>The number that a string of decimal digits denotes.\<close>

definition digit_val :: "char \<Rightarrow> nat" where
  "digit_val c = length (takeWhile (\<lambda>x. x \<noteq> c) ''0123456789'')"

definition undec :: "string \<Rightarrow> nat" where
  "undec s = foldl (\<lambda>a c. 10 * a + digit_val c) 0 s"

text \<open>
  The service's fields, and \<open>disk\<close>: the file system it writes to (not a field of the
  Python object; kept with the service so that "no side effect" is equality of states).
\<close>

record 'f RecordingService =
  output_folder :: path
  current_recording_folder :: "path option"
  frame_counter :: int
  is_recording :: bool
  disk :: "'f FileSystem"

definition RecordingService_init :: "path \<Rightarrow> 'f FileSystem \<Rightarrow> 'f RecordingService" where
  "RecordingService_init folder d =
     \<lparr>output_folder = folder, current_recording_folder = None, frame_counter = 0,
      is_recording = False, disk = d\<rparr>"

text \<open>
  \<open>start_recording(name)\<close>. \<open>clock\<close> is the wall-clock time as \<open>strftime\<close> renders it
  (\<open>%Y%m%d_%H%M%S\<close>), used for the default name; a name is one path component.
  The result is the returned string or the exception raised by \<open>mkdir\<close>, with the
  state left behind.
\<close>

definition start_recording ::
  "string option \<Rightarrow> string \<Rightarrow> 'f RecordingService \<Rightarrow> (error + string) \<times> 'f RecordingService" where
  "start_recording name clock s =
     (if is_recording s then (Inr (str_opt_path (current_recording_folder s)), s)
      else
        (let name' = (case name of None \<Rightarrow> ''recording_'' @ clock | Some n \<Rightarrow> n);
             folder = output_folder s @ [name'];
             s1 = s\<lparr>current_recording_folder := Some folder\<rparr>
         in case mkdir_parents_exist_ok folder (disk s1) of
              Inl e \<Rightarrow> (Inl e, s1)
            | Inr d \<Rightarrow>
                (Inr (path_str folder),
                 s1\<lparr>disk := d, frame_counter := 0, is_recording := True\<rparr>)))"

definition frame_filename :: "int \<Rightarrow> string" where
  "frame_filename n = ''frame_'' @ format_06d n @ ''.png''"

text \<open>
  \<open>record_frame(frame)\<close>. \<open>cvtColor\<close> is \<open>cv2.cvtColor(_, COLOR_RGB2BGR)\<close>, which raises
  on an array that is not a three-channel image; \<open>write_ok\<close> is the environment's
  answer to the write.
\<close>

definition record_frame ::
  "('f \<Rightarrow> error + 'f) \<Rightarrow> bool \<Rightarrow> 'f \<Rightarrow> 'f RecordingService
     \<Rightarrow> (error + bool) \<times> 'f RecordingService" where
  "record_frame cvtColor write_ok fr s =
     (if \<not> is_recording s then (Inr False, s)
      else case current_recording_folder s of
        None \<Rightarrow> (Inr False, s)
      | Some folder \<Rightarrow>
          (let filepath = folder @ [frame_filename (frame_counter s)]
           in case cvtColor fr of
                Inl e \<Rightarrow> (Inl e, s)
              | Inr frame_bgr \<Rightarrow>
                  (let (success, d) = imwrite filepath frame_bgr write_ok (disk s)
                   in (Inr success,
                       if success then s\<lparr>disk := d, frame_counter := frame_counter s + 1\<rparr>
                       else s))))"

definition stop_recording :: "'f RecordingService \<Rightarrow> (string \<times> int) \<times> 'f RecordingService" where
  "stop_recording s =
     (if \<not> is_recording s then (('''', 0), s)
      else ((str_opt_path (current_recording_folder s), frame_counter s),
            s\<lparr>is_recording := False, current_recording_folder := None, frame_counter := 0\<rparr>))"

definition is_recording_active :: "'f RecordingService \<Rightarrow> bool" where
  "is_recording_active s = is_recording s"

definition get_frame_count :: "'f RecordingService \<Rightarrow> int" where
  "get_frame_count s = (if is_recording s then frame_counter s else 0)"

text \<open>
  A run of \<open>record_frame\<close> calls, each with the frame and the environment's answer to
  its write. A call that raises leaves the state as it is (the caller goes on).
\<close>

fun record_frames ::
  "('f \<Rightarrow> error + 'f) \<Rightarrow> ('f \<times> bool) list \<Rightarrow> 'f RecordingService \<Rightarrow> 'f RecordingService" where
  "record_frames cvtColor [] s = s"
| "record_frames cvtColor ((fr, ok) # cs) s =
     record_frames cvtColor cs (snd (record_frame cvtColor ok fr s))"

text \<open>The converted frames of the calls of a run that return success, in order.\<close>

definition written :: "('f \<Rightarrow> error + 'f) \<Rightarrow> ('f \<times> bool) list \<Rightarrow> 'f list" where
  "written cvtColor cs =
     concat (map (\<lambda>(fr, ok). case cvtColor fr of
                                  Inl e \<Rightarrow> []
                                | Inr frame_bgr \<Rightarrow> if ok then [frame_bgr] else []) cs)"

section \<open>ProcessingPipeline (core/processing_pipeline.py)\<close>

text \<open>
  The collaborators. A data source is seen through the calls the pipeline makes on
  it (\<open>calls\<close>, oldest first) and the name its \<open>get_info()\<close> reports, if any; what
  \<open>open\<close>, \<open>start\<close> and \<open>read_frame\<close> answer is decided by the environment. A transform
  is its \<open>process\<close> function, which may raise, and its name.
\<close>

datatype source_call = CallOpen | CallStart | CallClose

record DataSource =
  info_name :: "string option"
  calls :: "source_call list"

record 'f Algorithm =
  process :: "'f \<Rightarrow> error + 'f"
  get_name :: string

text \<open>
  \<open>queue.Queue(maxsize=10)\<close>: \<open>put(block=False)\<close> raises \<open>Full\<close> on a full queue
  (\<open>None\<close> here), \<open>get(timeout=0.1)\<close> raises \<open>Empty\<close> when nothing arrives.
\<close>

definition queue_maxsize :: nat where
  "queue_maxsize = 10"

definition queue_put_nowait :: "'a list \<Rightarrow> 'a \<Rightarrow> 'a list option" where
  "queue_put_nowait q x = (if length q \<ge> queue_maxsize then None else Some (q @ [x]))"

definition queue_get :: "'a list \<Rightarrow> ('a \<times> 'a list) option" where
  "queue_get q = (case q of [] \<Rightarrow> None | x # q' \<Rightarrow> Some (x, q'))"

text \<open>
  The two worker loops run as threads beside the caller. Each thread is modelled by
  the statement of its loop body it executes next, with the values of its local
  variables:
  \<^item> acquisition: \<open>AcqTop\<close> is the loop test and \<open>read_frame\<close>; \<open>AcqBuffer fd\<close> is
    \<open>source_buffer.add(fd)\<close>; \<open>AcqPut fd\<close> is the non-blocking \<open>put\<close>; \<open>AcqCount\<close> is
    \<open>frames_acquired += 1\<close>;
  \<^item> processing: \<open>ProcTop\<close> is the loop test and \<open>get\<close>; \<open>ProcTransform fd\<close> is
    \<open>algorithm.process\<close> and the construction of the processed record; then
    \<open>processed_buffer.add\<close>, the recording, \<open>frames_processed += 1\<close> and the callback.
  A thread field is \<open>None\<close> when no such thread is alive.
\<close>

datatype 'f acq_pc =
  AcqTop
| AcqBuffer "'f FrameData"
| AcqPut "'f FrameData"
| AcqCount

datatype 'f proc_pc =
  ProcTop
| ProcTransform "'f FrameData"
| ProcBuffer "'f FrameData" "'f FrameData"
| ProcRecord "'f FrameData" "'f FrameData"
| ProcCount "'f FrameData" "'f FrameData"
| ProcCallback "'f FrameData" "'f FrameData"

datatype stop_pc = NotStopping | Joining

text \<open>
  The pipeline's fields. \<open>on_new_frame\<close> tells whether a callback is installed and
  \<open>delivered\<close> lists the pairs it has been invoked with. \<open>stop_call\<close> is \<open>Joining\<close>
  while a \<open>stop()\<close> call waits for the loops to exit. The pipeline's own lock guards
  \<open>start\<close>, \<open>stop\<close> and \<open>set_algorithm\<close> only and is never taken twice by one thread; it
  is left out, as are the unused \<open>acquisition_queue\<close> and the two timing statistics.
\<close>

record 'f ProcessingPipeline =
  data_source :: DataSource
  algorithm :: "'f Algorithm"
  source_buffer :: "'f FrameRingBuffer"
  processed_buffer :: "'f FrameRingBuffer"
  processing_queue :: "'f FrameData list"
  acquisition_thread :: "'f acq_pc option"
  processing_thread :: "'f proc_pc option"
  is_running :: bool
  on_new_frame :: bool
  delivered :: "('f FrameData \<times> 'f FrameData) list"
  recording_service :: "'f RecordingService"
  frames_acquired :: int
  frames_processed :: int
  stop_call :: stop_pc

definition ProcessingPipeline_init ::
  "DataSource \<Rightarrow> 'f Algorithm \<Rightarrow> int \<Rightarrow> 'f FileSystem \<Rightarrow> error + 'f ProcessingPipeline" where
  "ProcessingPipeline_init src alg buffer_size d =
     (case FrameRingBuffer_init buffer_size of
        Inl e \<Rightarrow> Inl e
      | Inr b \<Rightarrow>
          Inr \<lparr>data_source = src, algorithm = alg, source_buffer = b, processed_buffer = b,
               processing_queue = [], acquisition_thread = None, processing_thread = None,
               is_running = False, on_new_frame = False, delivered = [],
               recording_service = RecordingService_init [''recordings''] d,
               frames_acquired = 0, frames_processed = 0, stop_call = NotStopping\<rparr>)"

definition source_called :: "source_call list \<Rightarrow> 'f ProcessingPipeline \<Rightarrow> 'f ProcessingPipeline" where
  "source_called cs p = p\<lparr>data_source := (data_source p)\<lparr>calls := calls (data_source p) @ cs\<rparr>\<rparr>"

text \<open>
  \<open>start()\<close>, with the answers of \<open>data_source.open()\<close> and \<open>data_source.start()\<close>.
  Launching a loop sets its thread to the top of the loop.
\<close>

definition start :: "bool \<Rightarrow> bool \<Rightarrow> 'f ProcessingPipeline \<Rightarrow> bool \<times> 'f ProcessingPipeline" where
  "start open_ok start_ok p =
     (if is_running p then (True, p)
      else if \<not> open_ok then (False, source_called [CallOpen] p)
      else if \<not> start_ok then (False, source_called [CallOpen, CallStart, CallClose] p)
      else (True, (source_called [CallOpen, CallStart] p)
                    \<lparr>is_running := True,
                     acquisition_thread := Some AcqTop,
                     processing_thread := Some ProcTop\<rparr>))"

text \<open>
  \<open>stop()\<close> in two steps: clearing the flag, and, once both loops have exited (the
  joins have returned), closing the source and ending an active recording. The model
  covers the runs in which the joins complete within their timeout.
\<close>

definition stop_step :: "'f ProcessingPipeline \<Rightarrow> 'f ProcessingPipeline" where
  "stop_step p =
     (case stop_call p of
        NotStopping \<Rightarrow>
          (if \<not> is_running p then p else p\<lparr>is_running := False, stop_call := Joining\<rparr>)
      | Joining \<Rightarrow>
          (if acquisition_thread p = None \<and> processing_thread p = None
           then (let p1 = source_called [CallClose] p;
                     rs = recording_service p1
                 in p1\<lparr>recording_service :=
                         (if is_recording_active rs then snd (stop_recording rs) else rs),
                       stop_call := NotStopping\<rparr>)
           else p))"

definition set_algorithm :: "'f Algorithm \<Rightarrow> 'f ProcessingPipeline \<Rightarrow> 'f ProcessingPipeline" where
  "set_algorithm alg p = p\<lparr>algorithm := alg\<rparr>"

text \<open>
  The record the acquisition loop creates for a frame just read: stamped with the
  current value of \<open>frames_acquired\<close>.
\<close>

definition stamp :: "'f \<Rightarrow> nat \<Rightarrow> 'f ProcessingPipeline \<Rightarrow> 'f FrameData" where
  "stamp fr now p =
     \<lparr>frame = fr, timestamp = now, frame_number = frames_acquired p,
      source_info = Some (case info_name (data_source p) of
                            None \<Rightarrow> ''Unknown'' | Some n \<Rightarrow> n)\<rparr>"

text \<open>
  One statement of the acquisition loop. \<open>r\<close> is what \<open>read_frame()\<close> answers and
  \<open>now\<close> the clock, both used at the top of the loop only.
\<close>

definition acq_step :: "'f option \<Rightarrow> nat \<Rightarrow> 'f ProcessingPipeline \<Rightarrow> 'f ProcessingPipeline" where
  "acq_step r now p =
     (case acquisition_thread p of
        None \<Rightarrow> p
      | Some AcqTop \<Rightarrow>
          (if \<not> is_running p then p\<lparr>acquisition_thread := None\<rparr>
           else case r of
                  None \<Rightarrow> p
                | Some fr \<Rightarrow> p\<lparr>acquisition_thread := Some (AcqBuffer (stamp fr now p))\<rparr>)
      | Some (AcqBuffer fd) \<Rightarrow>
          p\<lparr>source_buffer := add (source_buffer p) fd,
            acquisition_thread := Some (AcqPut fd)\<rparr>
      | Some (AcqPut fd) \<Rightarrow>
          (case queue_put_nowait (processing_queue p) fd of
             None \<Rightarrow> p\<lparr>acquisition_thread := Some AcqCount\<rparr>
           | Some q \<Rightarrow> p\<lparr>processing_queue := q, acquisition_thread := Some AcqCount\<rparr>)
      | Some AcqCount \<Rightarrow>
          p\<lparr>frames_acquired := frames_acquired p + 1, acquisition_thread := Some AcqTop\<rparr>)"

text \<open>
  One statement of the processing loop. \<open>now\<close> is the clock and \<open>write_ok\<close> the
  environment's answer to a recording write. An exception raised by the transform or
  by the recording is caught by the loop's handler, which prints it and lets the loop
  go on at its top; so does an empty queue.
\<close>

definition proc_step ::
  "('f \<Rightarrow> error + 'f) \<Rightarrow> nat \<Rightarrow> bool \<Rightarrow> 'f ProcessingPipeline \<Rightarrow> 'f ProcessingPipeline" where
  "proc_step cvtColor now write_ok p =
     (case processing_thread p of
        None \<Rightarrow> p
      | Some ProcTop \<Rightarrow>
          (if \<not> is_running p then p\<lparr>processing_thread := None\<rparr>
           else case queue_get (processing_queue p) of
                  None \<Rightarrow> p
                | Some (fd, q) \<Rightarrow>
                    p\<lparr>processing_queue := q, processing_thread := Some (ProcTransform fd)\<rparr>)
      | Some (ProcTransform fd) \<Rightarrow>
          (case process (algorithm p) (frame fd) of
             Inl e \<Rightarrow> p\<lparr>processing_thread := Some ProcTop\<rparr>
           | Inr processed_frame \<Rightarrow>
               p\<lparr>processing_thread := Some (ProcBuffer fd
                    \<lparr>frame = processed_frame, timestamp = now,
                     frame_number = frame_number fd,
                     source_info = Some (get_name (algorithm p))\<rparr>)\<rparr>)
      | Some (ProcBuffer fd pd) \<Rightarrow>
          p\<lparr>processed_buffer := add (processed_buffer p) pd,
            processing_thread := Some (ProcRecord fd pd)\<rparr>
      | Some (ProcRecord fd pd) \<Rightarrow>
          (if is_recording_active (recording_service p)
           then (case record_frame cvtColor write_ok (frame pd) (recording_service p) of
                   (Inl e, rs) \<Rightarrow> p\<lparr>recording_service := rs, processing_thread := Some ProcTop\<rparr>
                 | (Inr ok, rs) \<Rightarrow>
                     p\<lparr>recording_service := rs, processing_thread := Some (ProcCount fd pd)\<rparr>)
           else p\<lparr>processing_thread := Some (ProcCount fd pd)\<rparr>)
      | Some (ProcCount fd pd) \<Rightarrow>
          p\<lparr>frames_processed := frames_processed p + 1,
            processing_thread := Some (ProcCallback fd pd)\<rparr>
      | Some (ProcCallback fd pd) \<Rightarrow>
          p\<lparr>delivered := (if on_new_frame p then delivered p @ [(fd, pd)] else delivered p),
            processing_thread := Some ProcTop\<rparr>)"

text \<open>
  A thread run alone from the top of its loop until it is at the top again (or has
  exited): one iteration of the loop as the source text reads. An iteration has at
  most four (acquisition) or six (processing) statements.
\<close>

fun acq_run :: "nat \<Rightarrow> 'f option \<Rightarrow> nat \<Rightarrow> 'f ProcessingPipeline \<Rightarrow> 'f ProcessingPipeline" where
  "acq_run 0 r now p = p"
| "acq_run (Suc k) r now p =
     (let p' = acq_step r now p
      in if acquisition_thread p' = Some AcqTop \<or> acquisition_thread p' = None then p'
         else acq_run k r now p')"

definition acquisition_iteration ::
  "'f option \<Rightarrow> nat \<Rightarrow> 'f ProcessingPipeline \<Rightarrow> 'f ProcessingPipeline" where
  "acquisition_iteration r now p = acq_run 4 r now p"

fun proc_run ::
  "nat \<Rightarrow> ('f \<Rightarrow> error + 'f) \<Rightarrow> nat \<Rightarrow> bool \<Rightarrow> 'f ProcessingPipeline \<Rightarrow> 'f ProcessingPipeline" where
  "proc_run 0 cvtColor now write_ok p = p"
| "proc_run (Suc k) cvtColor now write_ok p =
     (let p' = proc_step cvtColor now write_ok p
      in if processing_thread p' = Some ProcTop \<or> processing_thread p' = None then p'
         else proc_run k cvtColor now write_ok p')"

definition processing_iteration ::
  "('f \<Rightarrow> error + 'f) \<Rightarrow> nat \<Rightarrow> bool \<Rightarrow> 'f ProcessingPipeline \<Rightarrow> 'f ProcessingPipeline" where
  "processing_iteration cvtColor now write_ok p = proc_run 6 cvtColor now write_ok p"

text \<open>
  A run of the pipeline is a schedule: who moves next, with the environment's
  answers. The caller's operations are atomic steps; \<open>start()\<close> is called only when no
  \<open>stop()\<close> is under way.
\<close>

datatype 'f label =
  Acq "'f option" nat
| Proc nat bool
| Start bool bool
| Stop
| SetAlgorithm "'f Algorithm"
| SetCallback bool
| StartRecording "string option" string
| StopRecording

definition step ::
  "('f \<Rightarrow> error + 'f) \<Rightarrow> 'f label \<Rightarrow> 'f ProcessingPipeline \<Rightarrow> 'f ProcessingPipeline" where
  "step cvtColor l p =
     (case l of
        Acq r now \<Rightarrow> acq_step r now p
      | Proc now write_ok \<Rightarrow> proc_step cvtColor now write_ok p
      | Start open_ok start_ok \<Rightarrow>
          (if stop_call p = NotStopping then snd (start open_ok start_ok p) else p)
      | Stop \<Rightarrow> stop_step p
      | SetAlgorithm alg \<Rightarrow> set_algorithm alg p
      | SetCallback b \<Rightarrow> p\<lparr>on_new_frame := b\<rparr>
      | StartRecording name clock \<Rightarrow>
          p\<lparr>recording_service := snd (start_recording name clock (recording_service p))\<rparr>
      | StopRecording \<Rightarrow>
          p\<lparr>recording_service := snd (stop_recording (recording_service p))\<rparr>)"

definition exec ::
  "('f \<Rightarrow> error + 'f) \<Rightarrow> 'f label list \<Rightarrow> 'f ProcessingPipeline \<Rightarrow> 'f ProcessingPipeline" where
  "exec cvtColor ls p = foldl (\<lambda>p l. step cvtColor l p) p ls"

text \<open>
  The frame record a step creates, if the step is the acquisition loop reading a
  frame; and the records created along a schedule, in order.
\<close>

definition acquired_by :: "'f label \<Rightarrow> 'f ProcessingPipeline \<Rightarrow> 'f FrameData option" where
  "acquired_by l p =
     (case l of
        Acq (Some fr) now \<Rightarrow>
          (if acquisition_thread p = Some AcqTop \<and> is_running p
           then Some (stamp fr now p) else None)
      | _ \<Rightarrow> None)"

fun acquired_frames ::
  "('f \<Rightarrow> error + 'f) \<Rightarrow> 'f label list \<Rightarrow> 'f ProcessingPipeline \<Rightarrow> 'f FrameData list" where
  "acquired_frames cvtColor [] p = []"
| "acquired_frames cvtColor (l # ls) p =
     (case acquired_by l p of None \<Rightarrow> [] | Some fd \<Rightarrow> [fd])
       @ acquired_frames cvtColor ls (step cvtColor l p)"


section \<open>Quantities of a pipeline state used in the invariants\<close>









section \<open>Ring buffer: retention\<close>

lemma capacity_add [simp]: "capacity (add b x) = capacity b"
  by (simp add: add_def)

lemma capacity_add_all [simp]: "capacity (add_all b xs) = capacity b"
  unfolding add_all_def by (induction xs arbitrary: b) simp_all

lemma add_all_Nil [simp]: "add_all b [] = b"
  by (simp add: add_all_def)

lemma add_all_Cons: "add_all b (x # xs) = add_all (add b x) xs"
  by (simp add: add_all_def)

lemma add_all_snoc: "add_all b (xs @ [x]) = add (add_all b xs) x"
  by (simp add: add_all_def)

lemma deque_append_drop:
  assumes "0 \<le> c" and "int (length xs) \<le> c"
  shows "deque_append c xs x = drop (length (xs @ [x]) - nat c) (xs @ [x])"
proof (cases "int (length xs) = c")
  case True
  then have n: "length (xs @ [x]) - nat c = Suc 0" by simp
  from True have "deque_append c xs x = tl (xs @ [x])"
    by (simp add: deque_append_def)
  also have "\<dots> = drop (Suc 0) (xs @ [x])"
    by (simp only: drop_Suc drop_0)
  finally show ?thesis by (simp only: n)
next
  case False
  with assms have "int (length xs) < c" by simp
  then show ?thesis by (simp add: deque_append_def)
qed

lemma drop_window_snoc:
  fixes c :: nat
  shows "drop (length (drop (length ws - c) ws @ [x]) - c) (drop (length ws - c) ws @ [x]) =
         drop (length (ws @ [x]) - c) (ws @ [x])"
proof (cases "length ws < c")
  case True
  then show ?thesis by simp
next
  case False
  then have le: "c \<le> length ws" by simp
  then have a: "length (drop (length ws - c) ws @ [x]) - c = Suc 0" by simp
  from le have b: "length (ws @ [x]) - c = Suc (length ws - c)" by simp
  show ?thesis
  proof -
    have "drop (Suc 0) (drop (length ws - c) ws @ [x]) = tl (drop (length ws - c) ws @ [x])"
      by (simp only: drop_Suc drop_0)
    also have "\<dots> = drop (Suc (length ws - c)) (ws @ [x])"
    proof (cases "c = 0")
      case True
      then show ?thesis by simp
    next
      case False
      with le have "drop (length ws - c) ws \<noteq> []" by simp
      then have "tl (drop (length ws - c) ws @ [x]) = tl (drop (length ws - c) ws) @ [x]"
        by simp
      also have "\<dots> = drop (Suc (length ws - c)) ws @ [x]"
        by (simp add: drop_Suc drop_tl)
      also have "\<dots> = drop (Suc (length ws - c)) (ws @ [x])"
        using le False by simp
      finally show ?thesis .
    qed
    finally show ?thesis by (simp only: a b)
  qed
qed

lemma buffer_add_all:
  assumes "0 \<le> capacity b" and "int (length (buffer b)) \<le> capacity b"
  shows "buffer (add_all b fds) =
         drop (length (buffer b @ fds) - nat (capacity b)) (buffer b @ fds)"
proof (induction fds rule: rev_induct)
  case Nil
  from assms show ?case by simp
next
  case (snoc x xs)
  let ?c = "capacity b"
  let ?ws = "buffer b @ xs"
  let ?ys = "drop (length ?ws - nat ?c) ?ws"
  have ys: "buffer (add_all b xs) = ?ys" by (rule snoc.IH)
  have len: "int (length ?ys) \<le> ?c"
    using assms by simp
  have "buffer (add_all b (xs @ [x])) = deque_append ?c ?ys x"
    by (simp only: add_all_snoc add_def ys) simp
  also have "\<dots> = drop (length (?ys @ [x]) - nat ?c) (?ys @ [x])"
    using assms(1) len by (rule deque_append_drop)
  also have "\<dots> = drop (length (?ws @ [x]) - nat ?c) (?ws @ [x])"
    by (rule drop_window_snoc)
  finally show ?case by simp
qed

text \<open>
  Claim C1. A buffer built with capacity \<open>C > 0\<close> that receives \<open>N > C\<close> frames through
  \<open>add\<close> holds exactly the last \<open>C\<close> of them, oldest first. In particular a
  capacity-3 buffer receiving frames numbered 0, 1, 2, 3, 4 holds the numbers
  \<open>[2, 3, 4]\<close> and \<open>get_frame_range\<close> returns \<open>(2, 4)\<close>.
\<close>

theorem ring_buffer_retains_most_recent:
  fixes fds :: "'f FrameData list"
  assumes "0 < C" and "C < int (length fds)"
  shows "\<exists>b0. FrameRingBuffer_init C = Inr b0 \<and>
           buffer (add_all b0 fds) = drop (length fds - nat C) fds \<and>
           get_size (add_all b0 fds) = C \<and>
           (C = 3 \<and> map frame_number fds = [0, 1, 2, 3, 4] \<longrightarrow>
              get_all_frame_numbers (add_all b0 fds) = [2, 3, 4] \<and>
              get_frame_range (add_all b0 fds) = (Some 2, Some 4))"
proof -
  let ?ini = "\<lparr>capacity = C, buffer = []\<rparr> :: 'f FrameRingBuffer"
  let ?fin = "add_all ?ini fds"
  have init: "FrameRingBuffer_init C = Inr ?ini"
    using assms(1) by (simp add: FrameRingBuffer_init_def)
  have buf: "buffer ?fin = drop (length fds - nat C) fds"
    using buffer_add_all [of ?ini fds] assms(1) by simp
  have size: "get_size ?fin = C"
    using assms by (simp add: get_size_def buf)
  have scen: "get_all_frame_numbers ?fin = [2, 3, 4] \<and> get_frame_range ?fin = (Some 2, Some 4)"
    if c: "C = 3" and m: "map frame_number fds = [0, 1, 2, 3, 4]"
  proof -
    have "length (map frame_number fds) = 5" unfolding m by simp
    then have len: "length fds = 5" by simp
    have "map frame_number (buffer ?fin) = drop 2 (map frame_number fds)"
      using buf c len by (simp add: drop_map)
    then have d: "map frame_number (buffer ?fin) = [2, 3, 4]"
      unfolding m by simp
    then have ne: "buffer ?fin \<noteq> []" by auto
    have "frame_number (buffer ?fin ! 0) = map frame_number (buffer ?fin) ! 0"
      using ne by (simp add: nth_map)
    then have first: "frame_number (buffer ?fin ! 0) = 2" unfolding d by simp
    have "frame_number (last (buffer ?fin)) = last (map frame_number (buffer ?fin))"
      using ne by (simp add: last_map)
    then have lst: "frame_number (last (buffer ?fin)) = 4" unfolding d by simp
    show ?thesis
      using d ne first lst by (simp add: get_all_frame_numbers_def get_frame_range_def)
  qed
  from init buf size scen show ?thesis by blast
qed


theorem ring_buffer_retains_most_recent_witness:
  "\<exists>b0. FrameRingBuffer_init 3 = Inr b0 \<and>
     get_all_frame_numbers
       (add_all b0 (map (\<lambda>n. \<lparr>frame = (), timestamp = 0, frame_number = n, source_info = None\<rparr>)
                        [0, 1, 2, 3, 4])) = [2, 3, 4] \<and>
     get_frame_range
       (add_all b0 (map (\<lambda>n. \<lparr>frame = (), timestamp = 0, frame_number = n, source_info = None\<rparr>)
                        [0, 1, 2, 3, 4])) = (Some 2, Some 4)"
  using ring_buffer_retains_most_recent
    [of 3 "map (\<lambda>n. \<lparr>frame = (), timestamp = 0, frame_number = n, source_info = None\<rparr>)
               [0, 1, 2, 3, 4]"]
  by auto

section \<open>Ring buffer: capacity zero and the fill percentage\<close>

lemma buffer_add_all_capacity_zero:
  "capacity b = 0 \<Longrightarrow> buffer b = [] \<Longrightarrow> buffer (add_all b fds) = []"
  using buffer_add_all [of b fds] by simp

text \<open>
  Claim C10. The constructor accepts capacity 0. On such a buffer, whatever has been
  added, \<open>get\<close>, \<open>get_latest\<close>, \<open>get_by_frame_number\<close> and \<open>get_frame_range\<close> return
  none, and \<open>get_fill_percentage\<close> fails with a division by zero. For a buffer built
  with a capacity \<open>C > 0\<close>, \<open>get_fill_percentage\<close> is \<open>size / C * 100\<close> and does not
  fail.
\<close>

theorem capacity_zero_lookups_total_fill_divides:
  fixes fds :: "'f FrameData list"
  shows "(\<exists>b0. FrameRingBuffer_init 0 = Inr b0 \<and>
            get (add_all b0 fds) i = None \<and>
            get_latest (add_all b0 fds) = None \<and>
            get_by_frame_number (add_all b0 fds) n = None \<and>
            get_frame_range (add_all b0 fds) = (None, None) \<and>
            get_fill_percentage (add_all b0 fds) = Inl ZeroDivisionError) \<and>
         (\<forall>C b1. 0 < C \<and> FrameRingBuffer_init C = Inr b1 \<longrightarrow>
            get_fill_percentage (add_all b1 fds) =
              Inr (of_int (get_size (add_all b1 fds)) / of_int C * 100))"
proof -
  let ?ini = "\<lparr>capacity = 0, buffer = []\<rparr> :: 'f FrameRingBuffer"
  have init: "FrameRingBuffer_init 0 = Inr ?ini"
    by (simp add: FrameRingBuffer_init_def)
  have empty: "buffer (add_all ?ini fds) = []"
    by (rule buffer_add_all_capacity_zero) simp_all
  have cap: "capacity (add_all ?ini fds) = 0" by simp
  have zero: "get (add_all ?ini fds) i = None \<and>
            get_latest (add_all ?ini fds) = None \<and>
            get_by_frame_number (add_all ?ini fds) n = None \<and>
            get_frame_range (add_all ?ini fds) = (None, None) \<and>
            get_fill_percentage (add_all ?ini fds) = Inl ZeroDivisionError"
    using empty cap
    by (simp add: get_def get_latest_def get_by_frame_number_def get_frame_range_def
        get_fill_percentage_def)
  have pos: "get_fill_percentage (add_all b1 fds) =
              Inr (of_int (get_size (add_all b1 fds)) / of_int C * 100)"
    if "0 < C \<and> FrameRingBuffer_init C = Inr b1" for C and b1 :: "'f FrameRingBuffer"
  proof -
    from that have "capacity b1 = C"
      by (auto simp: FrameRingBuffer_init_def split: if_splits)
    with that show ?thesis by (simp add: get_fill_percentage_def)
  qed
  from init zero pos show ?thesis by blast
qed

theorem capacity_zero_lookups_total_fill_divides_witness:
  "\<exists>b1. FrameRingBuffer_init 4 = Inr b1 \<and>
     get_fill_percentage
       (add_all b1 [\<lparr>frame = (), timestamp = 0, frame_number = 0, source_info = None\<rparr>]) =
     Inr 25"
proof -
  let ?fds = "[\<lparr>frame = (), timestamp = 0, frame_number = 0, source_info = None\<rparr>]"
  let ?ini = "\<lparr>capacity = 4, buffer = []\<rparr> :: unit FrameRingBuffer"
  have i: "0 < (4::int) \<and> FrameRingBuffer_init 4 = Inr ?ini"
    by (simp add: FrameRingBuffer_init_def)
  have "get_fill_percentage (add_all ?ini ?fds) =
        Inr (of_int (get_size (add_all ?ini ?fds)) / of_int 4 * 100)"
    using capacity_zero_lookups_total_fill_divides [of ?fds] i by blast
  moreover have "get_size (add_all ?ini ?fds) = 1"
    by (simp add: get_size_def add_all_def add_def deque_append_def)
  ultimately show ?thesis using i by simp
qed

section \<open>Playback controller: stepping and toggling\<close>

lemma with_lock_free:
  "\<not> lock c \<Longrightarrow> with_lock c (\<lambda>c. Some (f c)) = Some ((f (c\<lparr>lock := True\<rparr>))\<lparr>lock := False\<rparr>)"
  by (simp add: with_lock_def)

lemma with_lock_held: "lock c \<Longrightarrow> with_lock c body = None"
  by (simp add: with_lock_def)

lemma step_forward_free:
  assumes "\<not> lock c"
  shows "step_forward c =
         Some (if (case total_frames c of None \<Rightarrow> True | Some t \<Rightarrow> current_frame c < t - 1)
               then fire_callback (c\<lparr>current_frame := current_frame c + 1\<rparr>)
               else c)"
  using assms
  by (cases c) (simp add: step_forward_def with_lock_def fire_callback_def split: option.splits)

lemma step_backward_free:
  assumes "\<not> lock c"
  shows "step_backward c =
         Some (if current_frame c > 0
               then fire_callback (c\<lparr>current_frame := current_frame c - 1\<rparr>)
               else c)"
  using assms
  by (cases c) (simp add: step_backward_def with_lock_def fire_callback_def)

text \<open>
  Claim C5, as the code has it. Called with the lock free, in any playback state:
  \<open>step_forward\<close> adds 1 to the current frame and invokes the installed callback with
  the new value when the total is unknown or the current frame is below \<open>total - 1\<close>;
  otherwise it changes nothing and invokes nothing. \<open>step_backward\<close> subtracts 1 and
  invokes the callback when the current frame is above 0; otherwise it changes
  nothing and invokes nothing. Neither reads or changes the playback state. For a
  current frame inside the valid range the new current frame is the clamped value.
\<close>

theorem step_moves_and_fires_inside_range_only:
  assumes "\<not> lock c"
  shows "\<exists>f b. step_forward c = Some f \<and> step_backward c = Some b \<and>
           state f = state c \<and> state b = state c \<and>
           (if total_frames c = None \<or> current_frame c < the (total_frames c) - 1
            then f = c\<lparr>current_frame := current_frame c + 1,
                       callback_calls := callback_calls c @
                         (if frame_callback c then [current_frame c + 1] else [])\<rparr>
            else f = c) \<and>
           (if 0 < current_frame c
            then b = c\<lparr>current_frame := current_frame c - 1,
                       callback_calls := callback_calls c @
                         (if frame_callback c then [current_frame c - 1] else [])\<rparr>
            else b = c) \<and>
           (if 0 \<le> current_frame c \<and>
               (total_frames c = None \<or> current_frame c \<le> the (total_frames c) - 1)
            then current_frame f = clamp_frame (total_frames c) (current_frame c + 1) \<and>
                 current_frame b = clamp_frame (total_frames c) (current_frame c - 1)
            else True)"
proof -
  let ?f = "if (case total_frames c of None \<Rightarrow> True | Some t \<Rightarrow> current_frame c < t - 1)
            then fire_callback (c\<lparr>current_frame := current_frame c + 1\<rparr>) else c"
  let ?b = "if current_frame c > 0
            then fire_callback (c\<lparr>current_frame := current_frame c - 1\<rparr>) else c"
  have f: "step_forward c = Some ?f" using assms by (rule step_forward_free)
  have b: "step_backward c = Some ?b" using assms by (rule step_backward_free)
  have st: "state ?f = state c" "state ?b = state c"
    by (simp_all add: fire_callback_def)
  have fwd: "if total_frames c = None \<or> current_frame c < the (total_frames c) - 1
            then ?f = c\<lparr>current_frame := current_frame c + 1,
                       callback_calls := callback_calls c @
                         (if frame_callback c then [current_frame c + 1] else [])\<rparr>
            else ?f = c"
    by (cases "total_frames c") (simp_all add: fire_callback_def)
  have bwd: "if 0 < current_frame c
            then ?b = c\<lparr>current_frame := current_frame c - 1,
                       callback_calls := callback_calls c @
                         (if frame_callback c then [current_frame c - 1] else [])\<rparr>
            else ?b = c"
    by (simp add: fire_callback_def)
  have cl: "if 0 \<le> current_frame c \<and>
               (total_frames c = None \<or> current_frame c \<le> the (total_frames c) - 1)
            then current_frame ?f = clamp_frame (total_frames c) (current_frame c + 1) \<and>
                 current_frame ?b = clamp_frame (total_frames c) (current_frame c - 1)
            else True"
    by (cases "total_frames c") (auto simp: fire_callback_def clamp_frame_def)
  from f b st fwd bwd cl show ?thesis by blast
qed

theorem step_moves_and_fires_inside_range_only_witness:
  "\<exists>f b. step_forward ((PlaybackController_init 30)
             \<lparr>total_frames := Some 3, current_frame := 1, frame_callback := True\<rparr>) = Some f \<and>
         step_backward ((PlaybackController_init 30)
             \<lparr>total_frames := Some 3, current_frame := 1, frame_callback := True\<rparr>) = Some b \<and>
         current_frame f = 2 \<and> callback_calls f = [2] \<and>
         current_frame b = 0 \<and> callback_calls b = [0]"
  using step_moves_and_fires_inside_range_only
    [of "(PlaybackController_init 30)
           \<lparr>total_frames := Some 3, current_frame := 1, frame_callback := True\<rparr>"]
  by (auto simp: PlaybackController_init_def)

text \<open>
  Claim C5 as stated fails at a boundary: at the last index (frame 2 of 3) with a
  callback installed, \<open>step_forward\<close> returns the controller as it was, so the
  callback has not been invoked; and so does \<open>step_backward\<close> at frame 0.
\<close>

theorem step_at_boundary_fires_no_callback:
  "step_forward \<lparr>fps = 30, state = PAUSED, current_frame = 2, loop_enabled = False,
                 total_frames = Some 3, lock = False, play_thread = None,
                 stop_event = False, frame_callback = True, callback_calls = []\<rparr>
     = Some \<lparr>fps = 30, state = PAUSED, current_frame = 2, loop_enabled = False,
             total_frames = Some 3, lock = False, play_thread = None,
             stop_event = False, frame_callback = True, callback_calls = []\<rparr> \<and>
   step_backward \<lparr>fps = 30, state = PAUSED, current_frame = 0, loop_enabled = False,
                  total_frames = Some 3, lock = False, play_thread = None,
                  stop_event = False, frame_callback = True, callback_calls = []\<rparr>
     = Some \<lparr>fps = 30, state = PAUSED, current_frame = 0, loop_enabled = False,
             total_frames = Some 3, lock = False, play_thread = None,
             stop_event = False, frame_callback = True, callback_calls = []\<rparr>"
  by (simp add: step_forward_def step_backward_def with_lock_def)

lemma toggle_play_pause_blocks: "toggle_play_pause c = None"
proof (cases "lock c")
  case True
  then show ?thesis by (simp add: toggle_play_pause_def with_lock_held)
next
  case False
  let ?h = "c\<lparr>lock := True\<rparr>"
  have "pause ?h = None" "play ?h = None"
    by (simp_all add: pause_def play_def with_lock_held)
  with False show ?thesis by (simp add: toggle_play_pause_def with_lock_def)
qed

text \<open>
  Claim C6 against the code. \<open>toggle_play_pause\<close> takes the controller's lock and,
  still holding it, calls \<open>pause()\<close> or \<open>play()\<close>, each of which takes the same lock;
  the lock is a plain \<open>threading.Lock\<close>, so the inner call blocks and the toggle never
  returns. On a fresh controller \<open>play()\<close> alone returns with the state PLAYING,
  while \<open>toggle_play_pause()\<close> does not return.
\<close>

theorem toggle_play_pause_never_returns:
  "toggle_play_pause (PlaybackController_init 30) = None \<and>
   play (PlaybackController_init 30) =
     Some ((PlaybackController_init 30)\<lparr>state := PLAYING, play_thread := Some True\<rparr>)"
  by (simp add: toggle_play_pause_def play_def pause_def with_lock_def
      PlaybackController_init_def)

section \<open>Recording service: sessions\<close>

lemma start_recording_active:
  "is_recording s \<Longrightarrow>
   start_recording name clock s = (Inr (str_opt_path (current_recording_folder s)), s)"
  by (simp add: start_recording_def)

lemma start_recording_idle:
  assumes "\<not> is_recording s"
    and "mkdir_parents_exist_ok (output_folder s @ [session]) (disk s) = Inr d"
    and "session = (case name of None \<Rightarrow> ''recording_'' @ clock | Some n \<Rightarrow> n)"
  shows "start_recording name clock s =
         (Inr (path_str (output_folder s @ [session])),
          s\<lparr>current_recording_folder := Some (output_folder s @ [session]),
            disk := d, frame_counter := 0, is_recording := True\<rparr>)"
  using assms by (simp add: start_recording_def Let_def)

lemma mkdir_parents_exist_ok_result:
  assumes "mkdir_parents_exist_ok p d = Inr d'"
  shows "files d' = files d" and "dirs d' = dirs d \<union> set (tl (prefixes p))"
  using assms by (auto simp: mkdir_parents_exist_ok_def split: if_splits)

lemma self_in_tl_prefixes: "p \<noteq> [] \<Longrightarrow> p \<in> set (tl (prefixes p))"
  by (cases p) (auto simp: image_iff)

text \<open>
  Claim C7, as the code has it. While a session is active, \<open>start_recording\<close> returns
  the path of the current session and changes nothing: no directory is created and
  the frame counter keeps its value. When idle, and unless \<open>mkdir\<close> raises, it makes
  the folder \<open>output_folder / name\<close> the current one, makes sure that this directory
  exists (an existing directory is kept, with its files), resets the counter to 0
  and starts the session; a second call then returns the same path and changes
  nothing.
\<close>

theorem start_recording_idempotent_while_active:
  fixes s :: "'f RecordingService"
  shows "(is_recording s \<longrightarrow>
            start_recording name clock s =
              (Inr (str_opt_path (current_recording_folder s)), s)) \<and>
         (\<not> is_recording s \<and>
          mkdir_parents_exist_ok (output_folder s @ [session]) (disk s) = Inr d \<and>
          session = (case name of None \<Rightarrow> ''recording_'' @ clock | Some n \<Rightarrow> n) \<longrightarrow>
            (\<exists>s'. start_recording name clock s =
                     (Inr (path_str (output_folder s @ [session])), s') \<and>
                   current_recording_folder s' = Some (output_folder s @ [session]) \<and>
                   output_folder s @ [session] \<in> dirs (disk s') \<and>
                   dirs (disk s) \<subseteq> dirs (disk s') \<and>
                   files (disk s') = files (disk s) \<and>
                   frame_counter s' = 0 \<and> is_recording s' \<and>
                   start_recording name2 clock2 s' =
                     (Inr (path_str (output_folder s @ [session])), s')))"
proof (intro conjI impI)
  assume "is_recording s"
  then show "start_recording name clock s =
               (Inr (str_opt_path (current_recording_folder s)), s)"
    by (rule start_recording_active)
next
  let ?folder = "output_folder s @ [session]"
  let ?s' = "s\<lparr>current_recording_folder := Some ?folder,
               disk := d, frame_counter := 0, is_recording := True\<rparr>"
  assume a: "\<not> is_recording s \<and>
          mkdir_parents_exist_ok ?folder (disk s) = Inr d \<and>
          session = (case name of None \<Rightarrow> ''recording_'' @ clock | Some n \<Rightarrow> n)"
  then have a1: "\<not> is_recording s"
    and a2: "mkdir_parents_exist_ok ?folder (disk s) = Inr d"
    and a3: "session = (case name of None \<Rightarrow> ''recording_'' @ clock | Some n \<Rightarrow> n)"
    by blast+
  from a1 a2 a3 have r: "start_recording name clock s = (Inr (path_str ?folder), ?s')"
    by (rule start_recording_idle)
  note f = mkdir_parents_exist_ok_result(1) [OF a2]
  note ds = mkdir_parents_exist_ok_result(2) [OF a2]
  have "?folder \<in> set (tl (prefixes ?folder))"
    by (rule self_in_tl_prefixes) simp
  with ds have m: "?folder \<in> dirs d" by simp
  have again: "start_recording name2 clock2 ?s' = (Inr (path_str ?folder), ?s')"
    by (simp add: start_recording_active str_opt_path_def)
  show "\<exists>s'. start_recording name clock s = (Inr (path_str ?folder), s') \<and>
             current_recording_folder s' = Some ?folder \<and>
             ?folder \<in> dirs (disk s') \<and>
             dirs (disk s) \<subseteq> dirs (disk s') \<and>
             files (disk s') = files (disk s) \<and>
             frame_counter s' = 0 \<and> is_recording s' \<and>
             start_recording name2 clock2 s' = (Inr (path_str ?folder), s')"
    using r f ds m again by (intro exI [of _ ?s']) auto
qed

theorem start_recording_idempotent_while_active_witness:
  "\<exists>s'. start_recording (Some ''take1'') ''20240101_120000''
           (RecordingService_init [''recordings''] \<lparr>dirs = {}, files = Map.empty\<rparr>
              :: unit RecordingService) = (Inr ''recordings/take1'', s') \<and>
        frame_counter s' = 0 \<and> is_recording s' \<and>
        [''recordings'', ''take1''] \<in> dirs (disk s') \<and>
        start_recording None ''20240101_120001'' s' = (Inr ''recordings/take1'', s')"
proof -
  let ?s = "RecordingService_init [''recordings''] \<lparr>dirs = {}, files = Map.empty\<rparr>
              :: unit RecordingService"
  let ?d = "\<lparr>dirs = {[''recordings''], [''recordings'', ''take1'']},
             files = Map.empty\<rparr> :: unit FileSystem"
  have h: "\<not> is_recording ?s \<and>
        mkdir_parents_exist_ok (output_folder ?s @ [''take1'']) (disk ?s) = Inr ?d \<and>
        ''take1'' = (case Some ''take1'' of None \<Rightarrow> ''recording_'' @ ''20240101_120000''
                     | Some n \<Rightarrow> n)"
    by (auto simp: RecordingService_init_def mkdir_parents_exist_ok_def)
  show ?thesis
    using start_recording_idempotent_while_active
      [of ?s "Some ''take1''" "''20240101_120000''" "''take1''" ?d None "''20240101_120001''"] h
    by (auto simp: RecordingService_init_def)
qed

text \<open>
  Claim C7 as stated fails in "creates a fresh session directory": when the
  directory \<open>recordings/take1\<close> exists and holds a frame of an earlier session, an
  idle \<open>start_recording('take1')\<close> succeeds, creates no directory, and the session
  runs in the old directory with the old file in it.
\<close>

theorem start_recording_reuses_existing_directory:
  "start_recording (Some ''take1'') ''20240101_120000''
     \<lparr>output_folder = [''recordings''], current_recording_folder = None,
      frame_counter = 0, is_recording = False,
      disk = \<lparr>dirs = {[''recordings''], [''recordings'', ''take1'']},
               files = [[''recordings'', ''take1'', ''frame_000000.png''] \<mapsto> ()]\<rparr>\<rparr>
   = (Inr ''recordings/take1'',
      \<lparr>output_folder = [''recordings''],
       current_recording_folder = Some [''recordings'', ''take1''],
       frame_counter = 0, is_recording = True,
       disk = \<lparr>dirs = {[''recordings''], [''recordings'', ''take1'']},
                files = [[''recordings'', ''take1'', ''frame_000000.png''] \<mapsto> ()]\<rparr>\<rparr>)"
  by (auto simp: start_recording_def mkdir_parents_exist_ok_def Let_def)

section \<open>Recording service: file names\<close>

lemma digit_val_digit_char: "d < 10 \<Longrightarrow> digit_val (digit_char d) = d"
proof -
  assume "d < 10"
  then have "d \<in> {0, 1, 2, 3, 4, 5, 6, 7, 8, 9}" by auto
  then show ?thesis
    by (auto simp: digit_val_def digit_char_def)
qed

lemma undec_snoc: "undec (s @ [c]) = 10 * undec s + digit_val c"
  by (simp add: undec_def)

lemma undec_dec: "undec (dec n) = n"
proof (induction n rule: dec.induct)
  case (1 n)
  show ?case
  proof (cases "n < 10")
    case True
    then show ?thesis
      by (subst dec.simps) (simp add: undec_def digit_val_digit_char)
  next
    case False
    then have "undec (dec n) = 10 * undec (dec (n div 10)) + digit_val (digit_char (n mod 10))"
      by (subst dec.simps) (simp add: undec_snoc)
    also have "\<dots> = 10 * (n div 10) + n mod 10"
      using False by (simp add: "1.IH" digit_val_digit_char)
    finally show ?thesis by simp
  qed
qed

lemma undec_zfill: "undec (zfill w s) = undec s"
proof -
  have "foldl (\<lambda>a c. 10 * a + digit_val c) 0 (replicate k (CHR ''0'') @ s) =
        foldl (\<lambda>a c. 10 * a + digit_val c) 0 s" for k
    by (induction k) (simp_all add: digit_val_def)
  then show ?thesis by (simp add: undec_def zfill_def)
qed

lemma undec_format_06d: "0 \<le> n \<Longrightarrow> undec (format_06d n) = nat n"
  by (simp add: format_06d_def undec_zfill undec_dec)

lemma length_dec: "0 < k \<Longrightarrow> n < 10 ^ k \<Longrightarrow> length (dec n) \<le> k"
proof (induction k arbitrary: n)
  case 0
  then show ?case by simp
next
  case (Suc k)
  show ?case
  proof (cases "n < 10")
    case True
    then show ?thesis by (subst dec.simps) simp
  next
    case False
    with Suc.prems have k: "0 < k" by (cases k) simp_all
    from Suc.prems have "n div 10 < 10 ^ k" by (simp add: less_mult_imp_div_less mult.commute)
    with k have "length (dec (n div 10)) \<le> k" by (rule Suc.IH)
    with False show ?thesis by (subst dec.simps) simp
  qed
qed

lemma length_format_06d:
  assumes "0 \<le> n" and "n < 1000000"
  shows "length (format_06d n) = 6"
proof -
  from assms have "nat n < 10 ^ 6" by simp
  then have "length (dec (nat n)) \<le> 6" by (intro length_dec) simp_all
  with assms show ?thesis by (simp add: format_06d_def zfill_def)
qed

lemma frame_filename_inj:
  assumes "0 \<le> m" and "0 \<le> n" and "frame_filename m = frame_filename n"
  shows "m = n"
proof -
  from assms(3) have "format_06d m = format_06d n" by (simp add: frame_filename_def)
  then have "undec (format_06d m) = undec (format_06d n)" by simp
  with assms(1,2) show ?thesis by (simp add: undec_format_06d)
qed

section \<open>Recording service: writing frames\<close>

lemma record_frame_idle:
  "\<not> is_recording s \<or> current_recording_folder s = None \<Longrightarrow>
   record_frame cvt ok fr s = (Inr False, s)"
  by (auto simp: record_frame_def)

lemma record_frame_raises:
  "is_recording s \<Longrightarrow> current_recording_folder s = Some d \<Longrightarrow> cvt fr = Inl e \<Longrightarrow>
   record_frame cvt ok fr s = (Inl e, s)"
  by (simp add: record_frame_def)

lemma record_frame_write_fails:
  "is_recording s \<Longrightarrow> current_recording_folder s = Some d \<Longrightarrow> cvt fr = Inr bgr \<Longrightarrow>
   record_frame cvt False fr s = (Inr False, s)"
  by (simp add: record_frame_def imwrite_def)

lemma record_frame_write_succeeds:
  "is_recording s \<Longrightarrow> current_recording_folder s = Some d \<Longrightarrow> cvt fr = Inr bgr \<Longrightarrow>
   record_frame cvt True fr s =
     (Inr True,
      s\<lparr>disk := (disk s)\<lparr>files := (files (disk s))
                                    (d @ [frame_filename (frame_counter s)] \<mapsto> bgr)\<rparr>,
        frame_counter := frame_counter s + 1\<rparr>)"
  by (simp add: record_frame_def imwrite_def)

lemma written_Cons:
  "written cvt ((fr, ok) # cs) =
     (case cvt fr of Inl e \<Rightarrow> [] | Inr bgr \<Rightarrow> if ok then [bgr] else []) @ written cvt cs"
  by (simp add: written_def)

text \<open>The effect of one call of a run on the state, in the four cases of the call.\<close>

lemma record_frame_cases:
  assumes "is_recording s" and "current_recording_folder s = Some d"
  shows "(written cvt [(fr, ok)] = [] \<and> snd (record_frame cvt ok fr s) = s) \<or>
         (\<exists>bgr. written cvt [(fr, ok)] = [bgr] \<and>
            snd (record_frame cvt ok fr s) =
              s\<lparr>disk := (disk s)\<lparr>files := (files (disk s))
                                    (d @ [frame_filename (frame_counter s)] \<mapsto> bgr)\<rparr>,
                frame_counter := frame_counter s + 1\<rparr>)"
proof (cases "cvt fr")
  case (Inl e)
  with assms show ?thesis by (simp add: written_def record_frame_raises)
next
  case (Inr bgr)
  with assms show ?thesis
    by (cases ok) (simp_all add: written_def record_frame_write_fails record_frame_write_succeeds)
qed

lemma record_frames_session:
  assumes "is_recording s" and "current_recording_folder s = Some d"
  shows "is_recording (record_frames cvt cs s) \<and>
         current_recording_folder (record_frames cvt cs s) = Some d \<and>
         output_folder (record_frames cvt cs s) = output_folder s \<and>
         dirs (disk (record_frames cvt cs s)) = dirs (disk s) \<and>
         frame_counter (record_frames cvt cs s) = frame_counter s + int (length (written cvt cs))"
  using assms
proof (induction cs arbitrary: s)
  case Nil
  then show ?case by (simp add: written_def)
next
  case (Cons c cs)
  obtain fr ok where c: "c = (fr, ok)" by (cases c)
  let ?s1 = "snd (record_frame cvt ok fr s)"
  from record_frame_cases [OF Cons.prems, of cvt fr ok]
  have s1: "is_recording ?s1 \<and> current_recording_folder ?s1 = Some d \<and>
            output_folder ?s1 = output_folder s \<and> dirs (disk ?s1) = dirs (disk s) \<and>
            frame_counter ?s1 = frame_counter s + int (length (written cvt [(fr, ok)]))"
    using Cons.prems by auto
  then have "is_recording ?s1" and "current_recording_folder ?s1 = Some d" by simp_all
  from Cons.IH [OF this] s1 show ?case
    unfolding c by (simp add: written_Cons [of cvt fr ok cs] written_Cons [of cvt fr ok "[]"] written_def [of cvt "[]"])
qed

lemma record_frames_other_files:
  assumes "is_recording s" and "current_recording_folder s = Some d"
    and "\<And>j. p \<noteq> d @ [frame_filename (frame_counter s + int j)]"
  shows "files (disk (record_frames cvt cs s)) p = files (disk s) p"
  using assms
proof (induction cs arbitrary: s)
  case Nil
  then show ?case by simp
next
  case (Cons c cs)
  obtain fr ok where c: "c = (fr, ok)" by (cases c)
  let ?s1 = "snd (record_frame cvt ok fr s)"
  from record_frame_cases [OF Cons.prems(1,2), of cvt fr ok]
  consider "?s1 = s"
    | bgr where "?s1 = s\<lparr>disk := (disk s)\<lparr>files := (files (disk s))
                                    (d @ [frame_filename (frame_counter s)] \<mapsto> bgr)\<rparr>,
                          frame_counter := frame_counter s + 1\<rparr>"
    by blast
  then show ?case
  proof cases
    case 1
    with Cons.IH [of s] Cons.prems show ?thesis by (simp add: c)
  next
    case 2
    have rec: "is_recording ?s1" and fol: "current_recording_folder ?s1 = Some d"
      using 2 Cons.prems(1,2) by simp_all
    have names: "p \<noteq> d @ [frame_filename (frame_counter ?s1 + int j)]" for j
      using Cons.prems(3) [of "Suc j"] 2 by (simp add: add.assoc)
    have "files (disk (record_frames cvt cs ?s1)) p = files (disk ?s1) p"
      using rec fol names by (rule Cons.IH)
    also have "\<dots> = files (disk s) p"
      using Cons.prems(3) [of 0] 2 by simp
    finally show ?thesis by (simp add: c)
  qed
qed

lemma record_frames_files:
  assumes "is_recording s" and "current_recording_folder s = Some d"
    and "0 \<le> frame_counter s" and "i < length (written cvt cs)"
  shows "files (disk (record_frames cvt cs s)) (d @ [frame_filename (frame_counter s + int i)])
         = Some (written cvt cs ! i)"
  using assms
proof (induction cs arbitrary: s i)
  case Nil
  then show ?case by (simp add: written_def)
next
  case (Cons c cs)
  obtain fr ok where c: "c = (fr, ok)" by (cases c)
  let ?s1 = "snd (record_frame cvt ok fr s)"
  let ?n = "frame_counter s"
  from record_frame_cases [OF Cons.prems(1,2), of cvt fr ok]
  consider "written cvt [(fr, ok)] = []" and "?s1 = s"
    | bgr where "written cvt [(fr, ok)] = [bgr]"
      and "?s1 = s\<lparr>disk := (disk s)\<lparr>files := (files (disk s))
                                    (d @ [frame_filename ?n] \<mapsto> bgr)\<rparr>,
                    frame_counter := ?n + 1\<rparr>"
    by blast
  then show ?case
  proof cases
    case 1
    have w: "written cvt (c # cs) = written cvt cs"
      using 1(1) by (simp add: c written_def)
    with Cons.IH [of s i] Cons.prems 1(2) show ?thesis by (simp add: c)
  next
    case 2
    have w: "written cvt (c # cs) = bgr # written cvt cs"
      using 2(1) by (simp add: c written_def)
    have rec: "is_recording ?s1" and fol: "current_recording_folder ?s1 = Some d"
      and cnt: "frame_counter ?s1 = ?n + 1"
      using 2(2) Cons.prems(1,2) by simp_all
    show ?thesis
    proof (cases i)
      case 0
      have "d @ [frame_filename ?n] \<noteq> d @ [frame_filename (frame_counter ?s1 + int j)]" for j
      proof
        assume "d @ [frame_filename ?n] = d @ [frame_filename (frame_counter ?s1 + int j)]"
        then have "frame_filename ?n = frame_filename (?n + 1 + int j)" by (simp add: cnt)
        with Cons.prems(3) have "?n = ?n + 1 + int j" by (intro frame_filename_inj) simp_all
        then show False by simp
      qed
      with rec fol have "files (disk (record_frames cvt cs ?s1)) (d @ [frame_filename ?n])
                         = files (disk ?s1) (d @ [frame_filename ?n])"
        by (rule record_frames_other_files)
      also have "\<dots> = Some bgr" using 2(2) by simp
      finally show ?thesis using w by (simp add: c 0)
    next
      case (Suc k)
      with Cons.prems(4) w have k: "k < length (written cvt cs)" by simp
      from Cons.prems(3) cnt have nn: "0 \<le> frame_counter ?s1" by simp
      from Cons.IH [OF rec fol nn k]
      show ?thesis using w by (simp add: c Suc cnt algebra_simps)
    qed
  qed
qed

lemma record_frames_dom:
  assumes "is_recording s" and "current_recording_folder s = Some d"
  shows "dom (files (disk (record_frames cvt cs s))) =
         dom (files (disk s)) \<union>
           (\<lambda>i. d @ [frame_filename (frame_counter s + int i)]) ` {..<length (written cvt cs)}"
  using assms
proof (induction cs arbitrary: s)
  case Nil
  then show ?case by (simp add: written_def)
next
  case (Cons c cs)
  obtain fr ok where c: "c = (fr, ok)" by (cases c)
  let ?s1 = "snd (record_frame cvt ok fr s)"
  let ?n = "frame_counter s"
  let ?name = "\<lambda>m. d @ [frame_filename m]"
  from record_frame_cases [OF Cons.prems(1,2), of cvt fr ok]
  consider "written cvt [(fr, ok)] = []" and "?s1 = s"
    | bgr where "written cvt [(fr, ok)] = [bgr]"
      and "?s1 = s\<lparr>disk := (disk s)\<lparr>files := (files (disk s))(?name ?n \<mapsto> bgr)\<rparr>,
                    frame_counter := ?n + 1\<rparr>"
    by blast
  then show ?case
  proof cases
    case 1
    have w: "written cvt (c # cs) = written cvt cs"
      using 1(1) by (simp add: c written_def)
    with Cons.IH [of s] Cons.prems 1(2) show ?thesis by (simp add: c)
  next
    case 2
    have w: "written cvt (c # cs) = bgr # written cvt cs"
      using 2(1) by (simp add: c written_def)
    have rec: "is_recording ?s1" and fol: "current_recording_folder ?s1 = Some d"
      using 2(2) Cons.prems(1,2) by simp_all
    let ?m = "length (written cvt cs)"
    have "dom (files (disk (record_frames cvt cs ?s1))) =
          dom (files (disk ?s1)) \<union> (\<lambda>i. ?name (frame_counter ?s1 + int i)) ` {..<?m}"
      using rec fol by (rule Cons.IH)
    also have "dom (files (disk ?s1)) = insert (?name ?n) (dom (files (disk s)))"
      using 2(2) by simp
    also have "(\<lambda>i. ?name (frame_counter ?s1 + int i)) ` {..<?m} =
               (\<lambda>i. ?name (?n + int i)) ` Suc ` {..<?m}"
      using 2(2) by (simp add: image_image algebra_simps)
    also have "insert (?name ?n) (dom (files (disk s))) \<union> (\<lambda>i. ?name (?n + int i)) ` Suc ` {..<?m}
               = dom (files (disk s)) \<union> (\<lambda>i. ?name (?n + int i)) ` {..<Suc ?m}"
      by (simp add: lessThan_Suc_eq_insert_0)
    finally show ?thesis using w by (simp add: c)
  qed
qed

text \<open>
  Claim C8. \<open>record_frame\<close> called while no session is active returns failure and
  leaves the state as it is. During a session a call whose write succeeds stores the
  converted frame under \<open>frame_<counter>.png\<close> in the session folder and adds 1 to
  the counter; a call whose write fails, or whose colour conversion raises, leaves
  counter, session and files as they are. So in a session that starts with counter
  0 the successful calls of a run, \<open>N\<close> of them, leave the counter at \<open>N\<close> and produce
  exactly the files with indices \<open>0 .. N - 1\<close>, the \<open>k\<close>-th successful call under
  index \<open>k - 1\<close>. The index is rendered in decimal, zero-padded to six digits.
\<close>

theorem record_frame_numbers_files_in_order:
  fixes s :: "'f RecordingService"
  shows
    "(\<not> is_recording s \<or> current_recording_folder s = None \<longrightarrow>
        record_frame cvt ok fr s = (Inr False, s)) \<and>
     (is_recording s \<and> current_recording_folder s = Some d \<longrightarrow>
        (\<forall>bgr. cvt fr = Inr bgr \<longrightarrow>
           record_frame cvt True fr s =
             (Inr True,
              s\<lparr>disk := (disk s)\<lparr>files := (files (disk s))
                                    (d @ [frame_filename (frame_counter s)] \<mapsto> bgr)\<rparr>,
                frame_counter := frame_counter s + 1\<rparr>) \<and>
           record_frame cvt False fr s = (Inr False, s)) \<and>
        (\<forall>e. cvt fr = Inl e \<longrightarrow> record_frame cvt ok fr s = (Inl e, s))) \<and>
     (is_recording s \<and> current_recording_folder s = Some d \<and> frame_counter s = 0 \<longrightarrow>
        frame_counter (record_frames cvt cs s) = int (length (written cvt cs)) \<and>
        is_recording (record_frames cvt cs s) \<and>
        current_recording_folder (record_frames cvt cs s) = Some d \<and>
        dom (files (disk (record_frames cvt cs s))) =
          dom (files (disk s)) \<union>
            (\<lambda>i. d @ [frame_filename (int i)]) ` {..<length (written cvt cs)} \<and>
        (\<forall>i<length (written cvt cs).
           files (disk (record_frames cvt cs s)) (d @ [frame_filename (int i)]) =
             Some (written cvt cs ! i))) \<and>
     (\<forall>k. 0 \<le> k \<and> k < 1000000 \<longrightarrow>
        frame_filename k = ''frame_'' @ format_06d k @ ''.png'' \<and>
        length (format_06d k) = 6 \<and> undec (format_06d k) = nat k)"
proof (intro conjI impI allI)
  assume "\<not> is_recording s \<or> current_recording_folder s = None"
  then show "record_frame cvt ok fr s = (Inr False, s)" by (rule record_frame_idle)
next
  fix bgr
  assume "is_recording s \<and> current_recording_folder s = Some d" and "cvt fr = Inr bgr"
  then show "record_frame cvt True fr s =
             (Inr True,
              s\<lparr>disk := (disk s)\<lparr>files := (files (disk s))
                                    (d @ [frame_filename (frame_counter s)] \<mapsto> bgr)\<rparr>,
                frame_counter := frame_counter s + 1\<rparr>)"
    by (simp add: record_frame_write_succeeds)
next
  fix bgr
  assume "is_recording s \<and> current_recording_folder s = Some d" and "cvt fr = Inr bgr"
  then show "record_frame cvt False fr s = (Inr False, s)"
    by (simp add: record_frame_write_fails [where d = d and bgr = bgr])
next
  fix e
  assume "is_recording s \<and> current_recording_folder s = Some d" and "cvt fr = Inl e"
  then show "record_frame cvt ok fr s = (Inl e, s)"
    by (simp add: record_frame_raises [where d = d])
next
  assume a: "is_recording s \<and> current_recording_folder s = Some d \<and> frame_counter s = 0"
  then have r: "is_recording s" and f: "current_recording_folder s = Some d" by simp_all
  from record_frames_session [OF r f, of cvt cs] a
  show "frame_counter (record_frames cvt cs s) = int (length (written cvt cs))"
    and "is_recording (record_frames cvt cs s)"
    and "current_recording_folder (record_frames cvt cs s) = Some d"
    by simp_all
  from record_frames_dom [OF r f, of cvt cs] a
  show "dom (files (disk (record_frames cvt cs s))) =
          dom (files (disk s)) \<union>
            (\<lambda>i. d @ [frame_filename (int i)]) ` {..<length (written cvt cs)}"
    by simp
  fix i
  assume "i < length (written cvt cs)"
  with record_frames_files [OF r f, of i cvt cs] a
  show "files (disk (record_frames cvt cs s)) (d @ [frame_filename (int i)]) =
             Some (written cvt cs ! i)"
    by simp
next
  fix k :: int
  assume k: "0 \<le> k \<and> k < 1000000"
  show "frame_filename k = ''frame_'' @ format_06d k @ ''.png''"
    by (simp add: frame_filename_def)
  from k show "length (format_06d k) = 6" by (simp add: length_format_06d)
  from k show "undec (format_06d k) = nat k" by (simp add: undec_format_06d)
qed

theorem record_frame_numbers_files_in_order_witness:
  "frame_counter
     (record_frames Inr [((), True), ((), False), ((), True)]
        \<lparr>output_folder = [''recordings''],
         current_recording_folder = Some [''recordings'', ''take1''],
         frame_counter = 0, is_recording = True,
         disk = \<lparr>dirs = {[''recordings''], [''recordings'', ''take1'']},
                  files = Map.empty\<rparr>\<rparr>) = 2 \<and>
   dom (files (disk
     (record_frames Inr [((), True), ((), False), ((), True)]
        \<lparr>output_folder = [''recordings''],
         current_recording_folder = Some [''recordings'', ''take1''],
         frame_counter = 0, is_recording = True,
         disk = \<lparr>dirs = {[''recordings''], [''recordings'', ''take1'']},
                  files = Map.empty\<rparr>\<rparr>))) =
     {[''recordings'', ''take1'', ''frame_000000.png''],
      [''recordings'', ''take1'', ''frame_000001.png'']}"
proof -
  let ?s = "\<lparr>output_folder = [''recordings''],
         current_recording_folder = Some [''recordings'', ''take1''],
         frame_counter = 0, is_recording = True,
         disk = \<lparr>dirs = {[''recordings''], [''recordings'', ''take1'']},
                  files = Map.empty\<rparr>\<rparr> :: unit RecordingService"
  let ?cs = "[((), True), ((), False), ((), True)]"
  have w: "length (written Inr ?cs) = 2" by (simp add: written_def)
  have n0: "frame_filename 0 = ''frame_000000.png''"
    by (simp add: frame_filename_def format_06d_def zfill_def dec.simps digit_char_def eval_nat_numeral)
  have n1: "frame_filename 1 = ''frame_000001.png''"
    by (simp add: frame_filename_def format_06d_def zfill_def dec.simps digit_char_def eval_nat_numeral)
  have two: "{..<2::nat} = {0, 1}" by auto
  have "is_recording ?s \<and> current_recording_folder ?s = Some [''recordings'', ''take1''] \<and>
        frame_counter ?s = 0" by simp
  with record_frame_numbers_files_in_order
    [where s = ?s and d = "[''recordings'', ''take1'']" and cvt = Inr and cs = ?cs]
  have "frame_counter (record_frames Inr ?cs ?s) = int (length (written Inr ?cs))"
    and "dom (files (disk (record_frames Inr ?cs ?s))) =
          dom (files (disk ?s)) \<union>
            (\<lambda>i. [''recordings'', ''take1''] @ [frame_filename (int i)]) `
              {..<length (written Inr ?cs)}"
    by blast+
  then show ?thesis unfolding w two using n0 n1 by simp
qed

section \<open>Pipeline: starting\<close>

text \<open>
  Claim C9. When \<open>open()\<close> or \<open>start()\<close> of the data source fails, \<open>start()\<close> returns
  failure, the running flag stays false and no loop is launched (the thread fields
  and everything else but the source are as before); the source has been opened
  only, or opened, started and closed again. While the pipeline is running,
  \<open>start()\<close> returns success and changes nothing: the source is not opened again
  and no loop is launched. When both calls succeed the flag is set and both loops
  are launched.
\<close>

theorem start_failure_launches_nothing:
  fixes p :: "'f ProcessingPipeline"
  shows
    "(is_running p \<longrightarrow> start open_ok start_ok p = (True, p)) \<and>
     (\<not> is_running p \<and> \<not> open_ok \<longrightarrow>
        start open_ok start_ok p = (False, source_called [CallOpen] p) \<and>
        \<not> is_running (snd (start open_ok start_ok p)) \<and>
        acquisition_thread (snd (start open_ok start_ok p)) = acquisition_thread p \<and>
        processing_thread (snd (start open_ok start_ok p)) = processing_thread p) \<and>
     (\<not> is_running p \<and> open_ok \<and> \<not> start_ok \<longrightarrow>
        start open_ok start_ok p =
          (False, source_called [CallOpen, CallStart, CallClose] p) \<and>
        \<not> is_running (snd (start open_ok start_ok p)) \<and>
        acquisition_thread (snd (start open_ok start_ok p)) = acquisition_thread p \<and>
        processing_thread (snd (start open_ok start_ok p)) = processing_thread p) \<and>
     (\<not> is_running p \<and> open_ok \<and> start_ok \<longrightarrow>
        fst (start open_ok start_ok p) \<and>
        is_running (snd (start open_ok start_ok p)) \<and>
        acquisition_thread (snd (start open_ok start_ok p)) = Some AcqTop \<and>
        processing_thread (snd (start open_ok start_ok p)) = Some ProcTop \<and>
        calls (data_source (snd (start open_ok start_ok p))) =
          calls (data_source p) @ [CallOpen, CallStart])"
  by (simp add: start_def source_called_def)

theorem start_failure_launches_nothing_witness:
  "start True False
     (projr (ProcessingPipeline_init \<lparr>info_name = None, calls = []\<rparr>
               \<lparr>process = Inr, get_name = ''identity''\<rparr> 100
               \<lparr>dirs = {}, files = Map.empty\<rparr>) :: unit ProcessingPipeline)
   = (False,
      source_called [CallOpen, CallStart, CallClose]
        (projr (ProcessingPipeline_init \<lparr>info_name = None, calls = []\<rparr>
               \<lparr>process = Inr, get_name = ''identity''\<rparr> 100
               \<lparr>dirs = {}, files = Map.empty\<rparr>))) \<and>
   acquisition_thread (snd (start True False
     (projr (ProcessingPipeline_init \<lparr>info_name = None, calls = []\<rparr>
               \<lparr>process = Inr, get_name = ''identity''\<rparr> 100
               \<lparr>dirs = {}, files = Map.empty\<rparr>) :: unit ProcessingPipeline))) = None \<and>
   calls (data_source (snd (start True False
     (projr (ProcessingPipeline_init \<lparr>info_name = None, calls = []\<rparr>
               \<lparr>process = Inr, get_name = ''identity''\<rparr> 100
               \<lparr>dirs = {}, files = Map.empty\<rparr>) :: unit ProcessingPipeline))))
     = [CallOpen, CallStart, CallClose]"
proof -
  let ?p = "projr (ProcessingPipeline_init \<lparr>info_name = None, calls = []\<rparr>
               \<lparr>process = Inr, get_name = ''identity''\<rparr> 100
               \<lparr>dirs = {}, files = Map.empty\<rparr>) :: unit ProcessingPipeline"
  have i: "\<not> is_running ?p" "acquisition_thread ?p = None" "calls (data_source ?p) = []"
    by (simp_all add: ProcessingPipeline_init_def FrameRingBuffer_init_def)
  from start_failure_launches_nothing [of ?p True False] i
  show ?thesis by (simp add: source_called_def)
qed

section \<open>Pipeline: one iteration of the processing loop\<close>

lemma processing_iteration_transform_fails:
  assumes "is_running p" and "processing_thread p = Some ProcTop"
    and "processing_queue p = fd # q" and "process (algorithm p) (frame fd) = Inl e"
  shows "processing_iteration cvt now ok p = p\<lparr>processing_queue := q\<rparr>"
  using assms
  by (cases p)
    (simp add: processing_iteration_def eval_nat_numeral proc_step_def queue_get_def Let_def)

lemma processing_iteration_transform_succeeds:
  assumes "is_running p" and "processing_thread p = Some ProcTop"
    and "processing_queue p = fd # q" and "process (algorithm p) (frame fd) = Inr r"
    and "\<not> is_recording_active (recording_service p)"
    and "pd = \<lparr>frame = r, timestamp = now, frame_number = frame_number fd,
                source_info = Some (get_name (algorithm p))\<rparr>"
  shows "processing_iteration cvt now ok p =
         p\<lparr>processing_queue := q,
           processed_buffer := add (processed_buffer p) pd,
           frames_processed := frames_processed p + 1,
           delivered := (if on_new_frame p then delivered p @ [(fd, pd)] else delivered p)\<rparr>"
  using assms
  by (cases p)
    (simp add: processing_iteration_def eval_nat_numeral proc_step_def queue_get_def Let_def)

lemma processing_iteration_queue_empty:
  assumes "is_running p" and "processing_thread p = Some ProcTop"
    and "processing_queue p = []"
  shows "processing_iteration cvt now ok p = p"
  using assms
  by (cases p)
    (simp add: processing_iteration_def eval_nat_numeral proc_step_def queue_get_def Let_def)

lemma processing_iteration_recording_raises:
  assumes "is_running p" and "processing_thread p = Some ProcTop"
    and "processing_queue p = fd # q" and "process (algorithm p) (frame fd) = Inr r"
    and "is_recording_active (recording_service p)"
    and "record_frame cvt ok r (recording_service p) = (Inl e, rs)"
    and "pd = \<lparr>frame = r, timestamp = now, frame_number = frame_number fd,
                source_info = Some (get_name (algorithm p))\<rparr>"
  shows "processing_iteration cvt now ok p =
         p\<lparr>processing_queue := q,
           processed_buffer := add (processed_buffer p) pd,
           recording_service := rs\<rparr>"
  using assms
  by (cases p)
    (simp add: processing_iteration_def eval_nat_numeral proc_step_def queue_get_def Let_def)

lemma processing_iteration_recording_returns:
  assumes "is_running p" and "processing_thread p = Some ProcTop"
    and "processing_queue p = fd # q" and "process (algorithm p) (frame fd) = Inr r"
    and "is_recording_active (recording_service p)"
    and "record_frame cvt ok r (recording_service p) = (Inr b, rs)"
    and "pd = \<lparr>frame = r, timestamp = now, frame_number = frame_number fd,
                source_info = Some (get_name (algorithm p))\<rparr>"
  shows "processing_iteration cvt now ok p =
         p\<lparr>processing_queue := q,
           processed_buffer := add (processed_buffer p) pd,
           recording_service := rs,
           frames_processed := frames_processed p + 1,
           delivered := (if on_new_frame p then delivered p @ [(fd, pd)] else delivered p)\<rparr>"
  using assms
  by (cases p)
    (simp add: processing_iteration_def eval_nat_numeral proc_step_def queue_get_def Let_def)

lemma processing_iteration_after_transform:
  assumes "is_running p" and "processing_thread p = Some ProcTop"
    and "processing_queue p = fd # q" and "process (algorithm p) (frame fd) = Inr r"
    and "pd = \<lparr>frame = r, timestamp = now, frame_number = frame_number fd,
                source_info = Some (get_name (algorithm p))\<rparr>"
  shows "processed_buffer (processing_iteration cvt now ok p) = add (processed_buffer p) pd \<and>
         processing_queue (processing_iteration cvt now ok p) = q \<and>
         is_running (processing_iteration cvt now ok p) \<and>
         processing_thread (processing_iteration cvt now ok p) = Some ProcTop \<and>
         (frames_processed (processing_iteration cvt now ok p) = frames_processed p \<or>
          frames_processed (processing_iteration cvt now ok p) = frames_processed p + 1) \<and>
         (\<not> is_recording_active (recording_service p) \<longrightarrow>
          frames_processed (processing_iteration cvt now ok p) = frames_processed p + 1)"
proof (cases "is_recording_active (recording_service p)")
  case False
  from processing_iteration_transform_succeeds
      [OF assms(1-4) False assms(5), where cvt = cvt and ok = ok]
    assms(1,2) False
  show ?thesis by simp
next
  case True
  obtain res rs where rf: "record_frame cvt ok r (recording_service p) = (res, rs)"
    by (cases "record_frame cvt ok r (recording_service p)")
  show ?thesis
  proof (cases res)
    case (Inl e)
    from processing_iteration_recording_raises
      [OF assms(1-4) True rf [unfolded Inl] assms(5)] assms(1,2) True
    show ?thesis by simp
  next
    case (Inr b)
    from processing_iteration_recording_returns
      [OF assms(1-4) True rf [unfolded Inr] assms(5)] assms(1,2) True
    show ?thesis by simp
  qed
qed

lemma processing_iteration_counts_successes_only:
  assumes "is_running p" and "processing_thread p = Some ProcTop"
    and "frames_processed (processing_iteration cvt now ok p) \<noteq> frames_processed p"
  shows "frames_processed (processing_iteration cvt now ok p) = frames_processed p + 1 \<and>
         (\<exists>fd q r. processing_queue p = fd # q \<and> process (algorithm p) (frame fd) = Inr r)"
proof (cases "processing_queue p")
  case Nil
  with assms show ?thesis by (simp add: processing_iteration_queue_empty)
next
  case (Cons fd q)
  show ?thesis
  proof (cases "process (algorithm p) (frame fd)")
    case (Inl e)
    with assms Cons show ?thesis by (simp add: processing_iteration_transform_fails)
  next
    case (Inr r)
    from processing_iteration_after_transform
      [OF assms(1,2) Cons Inr refl, where cvt = cvt and now = now and ok = ok]
      assms(3) Cons Inr
    show ?thesis by blast
  qed
qed

text \<open>
  Claim C4. With the processing loop running at the top of its body: when the
  transform raises on the dequeued item, the iteration ends with the item removed
  from the queue and nothing else changed (processed buffer, processed count,
  running flag; the loop is at its top again), so the loop goes on with the next
  item. The processed count changes in an iteration only by 1 and only when the
  transform succeeded on the dequeued item. With frames 7 and 8 queued, a transform
  that fails on frame 7 and succeeds on frame 8, after two iterations frame 8's
  result is in the processed buffer under number 8 and, no recording being active,
  the processed count has grown by exactly 1.
\<close>

theorem transform_fault_drops_item_loop_continues:
  fixes p :: "'f ProcessingPipeline"
  assumes "is_running p" and "processing_thread p = Some ProcTop"
  shows
    "(\<forall>fd q e. processing_queue p = fd # q \<and> process (algorithm p) (frame fd) = Inl e \<longrightarrow>
        processing_iteration cvt now ok p = p\<lparr>processing_queue := q\<rparr>) \<and>
     (frames_processed (processing_iteration cvt now ok p) \<noteq> frames_processed p \<longrightarrow>
        frames_processed (processing_iteration cvt now ok p) = frames_processed p + 1 \<and>
        (\<exists>fd q r. processing_queue p = fd # q \<and>
                  process (algorithm p) (frame fd) = Inr r)) \<and>
     (\<forall>f7 f8 q e r.
        processing_queue p = f7 # f8 # q \<and> frame_number f7 = 7 \<and> frame_number f8 = 8 \<and>
        process (algorithm p) (frame f7) = Inl e \<and>
        process (algorithm p) (frame f8) = Inr r \<longrightarrow>
          processed_buffer (processing_iteration cvt now' ok' (processing_iteration cvt now ok p))
            = add (processed_buffer p)
                \<lparr>frame = r, timestamp = now', frame_number = 8,
                 source_info = Some (get_name (algorithm p))\<rparr> \<and>
          processing_queue (processing_iteration cvt now' ok' (processing_iteration cvt now ok p))
            = q \<and>
          (\<not> is_recording_active (recording_service p) \<longrightarrow>
             frames_processed
               (processing_iteration cvt now' ok' (processing_iteration cvt now ok p))
               = frames_processed p + 1))"
proof (intro conjI allI impI)
  fix fd q e
  assume "processing_queue p = fd # q \<and> process (algorithm p) (frame fd) = Inl e"
  with assms show "processing_iteration cvt now ok p = p\<lparr>processing_queue := q\<rparr>"
    by (simp add: processing_iteration_transform_fails)
next
  assume "frames_processed (processing_iteration cvt now ok p) \<noteq> frames_processed p"
  with assms processing_iteration_counts_successes_only [of p cvt now ok]
  show "frames_processed (processing_iteration cvt now ok p) = frames_processed p + 1"
    and "\<exists>fd q r. processing_queue p = fd # q \<and> process (algorithm p) (frame fd) = Inr r"
    by blast+
next
  fix f7 f8 q e r
  assume a: "processing_queue p = f7 # f8 # q \<and> frame_number f7 = 7 \<and> frame_number f8 = 8 \<and>
        process (algorithm p) (frame f7) = Inl e \<and>
        process (algorithm p) (frame f8) = Inr r"
  let ?p1 = "p\<lparr>processing_queue := f8 # q\<rparr>"
  let ?pd = "\<lparr>frame = r, timestamp = now', frame_number = frame_number f8,
             source_info = Some (get_name (algorithm ?p1))\<rparr>"
  from a assms have first: "processing_iteration cvt now ok p = ?p1"
    by (simp add: processing_iteration_transform_fails)
  have r1: "is_running ?p1" and t1: "processing_thread ?p1 = Some ProcTop"
    and q1: "processing_queue ?p1 = f8 # q"
    and a1: "process (algorithm ?p1) (frame f8) = Inr r"
    using assms a by simp_all
  note second = processing_iteration_after_transform
      [OF r1 t1 q1 a1 refl, where cvt = cvt and now = now' and ok = ok']
  from second a
  show "processed_buffer (processing_iteration cvt now' ok' (processing_iteration cvt now ok p))
            = add (processed_buffer p)
                \<lparr>frame = r, timestamp = now', frame_number = 8,
                 source_info = Some (get_name (algorithm p))\<rparr>"
    by (simp add: first)
  from second
  show "processing_queue (processing_iteration cvt now' ok' (processing_iteration cvt now ok p))
            = q"
    by (simp add: first)
  assume "\<not> is_recording_active (recording_service p)"
  with second
  show "frames_processed
               (processing_iteration cvt now' ok' (processing_iteration cvt now ok p))
               = frames_processed p + 1"
    by (simp add: first)
qed

theorem transform_fault_drops_item_loop_continues_witness:
  "get_all_frame_numbers (processed_buffer
     (processing_iteration Inr 2 True (processing_iteration Inr 1 True
        ((projr (ProcessingPipeline_init \<lparr>info_name = None, calls = []\<rparr>
                   \<lparr>process = (\<lambda>x. if x = (7::nat) then Inl AlgorithmError else Inr (x + 100)),
                    get_name = ''shift''\<rparr> 100
                   \<lparr>dirs = {}, files = Map.empty\<rparr>))
           \<lparr>processing_queue :=
              [\<lparr>frame = 7, timestamp = 0, frame_number = 7, source_info = None\<rparr>,
               \<lparr>frame = 8, timestamp = 0, frame_number = 8, source_info = None\<rparr>],
            acquisition_thread := Some AcqTop, processing_thread := Some ProcTop,
            is_running := True, frames_acquired := 9, frames_processed := 7\<rparr>)))) = [8] \<and>
   frames_processed
     (processing_iteration Inr 2 True (processing_iteration Inr 1 True
        ((projr (ProcessingPipeline_init \<lparr>info_name = None, calls = []\<rparr>
                   \<lparr>process = (\<lambda>x. if x = (7::nat) then Inl AlgorithmError else Inr (x + 100)),
                    get_name = ''shift''\<rparr> 100
                   \<lparr>dirs = {}, files = Map.empty\<rparr>))
           \<lparr>processing_queue :=
              [\<lparr>frame = 7, timestamp = 0, frame_number = 7, source_info = None\<rparr>,
               \<lparr>frame = 8, timestamp = 0, frame_number = 8, source_info = None\<rparr>],
            acquisition_thread := Some AcqTop, processing_thread := Some ProcTop,
            is_running := True, frames_acquired := 9, frames_processed := 7\<rparr>))) = 8"
proof -
  let ?f7 = "\<lparr>frame = 7::nat, timestamp = 0, frame_number = 7, source_info = None\<rparr>"
  let ?f8 = "\<lparr>frame = 8::nat, timestamp = 0, frame_number = 8, source_info = None\<rparr>"
  let ?P = "(projr (ProcessingPipeline_init \<lparr>info_name = None, calls = []\<rparr>
                   \<lparr>process = (\<lambda>x. if x = (7::nat) then Inl AlgorithmError else Inr (x + 100)),
                    get_name = ''shift''\<rparr> 100
                   \<lparr>dirs = {}, files = Map.empty\<rparr>))
           \<lparr>processing_queue := [?f7, ?f8],
            acquisition_thread := Some AcqTop, processing_thread := Some ProcTop,
            is_running := True, frames_acquired := 9, frames_processed := 7\<rparr>"
  have r: "is_running ?P" and t: "processing_thread ?P = Some ProcTop" by simp_all
  have h: "processing_queue ?P = ?f7 # ?f8 # [] \<and> frame_number ?f7 = 7 \<and> frame_number ?f8 = 8 \<and>
        process (algorithm ?P) (frame ?f7) = Inl AlgorithmError \<and>
        process (algorithm ?P) (frame ?f8) = Inr 108"
    by (simp add: ProcessingPipeline_init_def FrameRingBuffer_init_def)
  have n: "\<not> is_recording_active (recording_service ?P)"
    and b: "processed_buffer ?P = \<lparr>capacity = 100, buffer = []\<rparr>"
    and c: "frames_processed ?P = 7"
    by (simp_all add: ProcessingPipeline_init_def FrameRingBuffer_init_def
        is_recording_active_def RecordingService_init_def)
  from transform_fault_drops_item_loop_continues
    [OF r t, where cvt = Inr and now = 1 and ok = True and now' = 2 and ok' = True]
  have "\<forall>f7 f8 q e r.
        processing_queue ?P = f7 # f8 # q \<and> frame_number f7 = 7 \<and> frame_number f8 = 8 \<and>
        process (algorithm ?P) (frame f7) = Inl e \<and>
        process (algorithm ?P) (frame f8) = Inr r \<longrightarrow>
          processed_buffer (processing_iteration Inr 2 True (processing_iteration Inr 1 True ?P))
            = add (processed_buffer ?P)
                \<lparr>frame = r, timestamp = 2, frame_number = 8,
                 source_info = Some (get_name (algorithm ?P))\<rparr> \<and>
          processing_queue (processing_iteration Inr 2 True (processing_iteration Inr 1 True ?P))
            = q \<and>
          (\<not> is_recording_active (recording_service ?P) \<longrightarrow>
             frames_processed
               (processing_iteration Inr 2 True (processing_iteration Inr 1 True ?P))
               = frames_processed ?P + 1)"
    by blast
  from this [rule_format, OF h] n
  have "processed_buffer (processing_iteration Inr 2 True (processing_iteration Inr 1 True ?P))
            = add (processed_buffer ?P)
                \<lparr>frame = 108, timestamp = 2, frame_number = 8,
                 source_info = Some (get_name (algorithm ?P))\<rparr>"
    and "frames_processed
               (processing_iteration Inr 2 True (processing_iteration Inr 1 True ?P))
               = frames_processed ?P + 1"
    by blast+
  then show ?thesis
    unfolding b c by (simp add: get_all_frame_numbers_def add_def deque_append_def)
qed

section \<open>Pipeline: runs\<close>

lemma exec_Nil [simp]: "exec cvt [] p = p"
  by (simp add: exec_def)

lemma exec_Cons [simp]: "exec cvt (l # ls) p = exec cvt ls (step cvt l p)"
  by (simp add: exec_def)

lemma exec_append: "exec cvt (ls @ ms) p = exec cvt ms (exec cvt ls p)"
  by (simp add: exec_def)

lemma acquired_frames_append:
  "acquired_frames cvt (ls @ ms) p =
     acquired_frames cvt ls p @ acquired_frames cvt ms (exec cvt ls p)"
  by (induction ls arbitrary: p) simp_all

lemma step_Acq: "step cvt (Acq r now) p = acq_step r now p"
  by (simp add: step_def)




text \<open>
  \<open>acquired_by\<close> names exactly the record that the acquisition loop takes in hand at
  the top of its body.
\<close>

lemma acquired_by_iff:
  "acquired_by l p = Some fd \<longleftrightarrow>
     acquisition_thread p = Some AcqTop \<and>
     acquisition_thread (step cvt l p) = Some (AcqBuffer fd) \<and>
     (\<exists>r now. l = Acq r now)"
proof (cases l)
  case (Acq r now)
  show ?thesis
    unfolding Acq step_Acq
    by (cases r; cases "acquisition_thread p")
      (auto simp: acquired_by_def acq_step_def split: acq_pc.splits)
qed (auto simp: acquired_by_def)

subsection \<open>The loops of an earlier session have exited\<close>








subsection \<open>Frame numbers along a run\<close>














subsection \<open>Processed frames and acquired frames\<close>




















end
